theory Spec2Isabelle
  imports Main "HOL-Library.AList" "HOL-Library.Char_ord" "HOL-Library.List_Lexorder"
begin

section \<open>Text cleaning (question.py, clean\_question\_text)\<close>

text \<open>
  The source cleans question text with three calls of Python's \<^verbatim>\<open>re.sub\<close>:
  \<^verbatim>\<open>
  def clean_question_text(text):
      t = text
      t = re.sub(r"[\n\t\r]", " ", t)
      t = re.sub(r"<.*>", " ", t)
      t = re.sub(r" +", " ", t)
      return t
  \<close>
  The three patterns are sequences of one-character atoms (a literal, the dot, a
  character class), each taken once or under a greedy \<^verbatim>\<open>*\<close> or \<^verbatim>\<open>+\<close>. The
  regular expressions are modelled at exactly that size, with the backtracking order
  of Python's engine: a greedy quantifier first takes as many characters as it can
  and gives them back one at a time while the rest of the pattern fails.
\<close>

datatype atom = Lit char | Dot | Class "char list"

datatype quant = One | Star | Plus

type_synonym regex = "(atom \<times> quant) list"

text \<open>The dot of Python's \<^verbatim>\<open>re\<close> (no DOTALL flag) matches every character but the newline.\<close>

fun atom_matches :: "atom \<Rightarrow> char \<Rightarrow> bool" where
  "atom_matches (Lit c) x = (x = c)"
| "atom_matches Dot x = (x \<noteq> CHR 0x0A)"
| "atom_matches (Class cs) x = (x \<in> set cs)"

text \<open>
  \<open>match_here r s\<close> matches the pattern at the start of \<open>s\<close> and returns the text left
  after the match the engine finds first, or \<open>None\<close> when the pattern does not match there.
\<close>

fun match_here :: "regex \<Rightarrow> string \<Rightarrow> string option" where
  "match_here [] s = Some s"
| "match_here ((a, One) # r) [] = None"
| "match_here ((a, One) # r) (x # s) = (if atom_matches a x then match_here r s else None)"
| "match_here ((a, Star) # r) [] = match_here r []"
| "match_here ((a, Star) # r) (x # s) =
     (if atom_matches a x
      then (case match_here ((a, Star) # r) s of
              Some t \<Rightarrow> Some t
            | None \<Rightarrow> match_here r (x # s))
      else match_here r (x # s))"
| "match_here ((a, Plus) # r) [] = None"
| "match_here ((a, Plus) # r) (x # s) =
     (if atom_matches a x then match_here ((a, Star) # r) s else None)"

text \<open>
  \<open>re_sub r repl s\<close> is \<^verbatim>\<open>re.sub(r, repl, s)\<close>: the text is scanned from the left, the
  leftmost match is replaced and the scan goes on behind it. An empty match is replaced
  and the scan moves one character on (none of the three patterns of the cleaner matches
  the empty text).
\<close>

function re_sub :: "regex \<Rightarrow> string \<Rightarrow> string \<Rightarrow> string" where
  "re_sub r repl [] = (case match_here r [] of Some t \<Rightarrow> repl | None \<Rightarrow> [])"
| "re_sub r repl (x # s) =
     (case match_here r (x # s) of
        None \<Rightarrow> x # re_sub r repl s
      | Some t \<Rightarrow>
          if length t < length (x # s) then repl @ re_sub r repl t
          else repl @ x # re_sub r repl s)"
  by pat_completeness auto
termination
  by (relation "measure (\<lambda>(r, repl, s). length s)") auto

definition clean_question_text :: "string \<Rightarrow> string" where
  "clean_question_text text =
     (let t = text;
          t = re_sub [(Class [CHR 0x0A, CHR 0x09, CHR 0x0D], One)] '' '' t;
          t = re_sub [(Lit (CHR ''<''), One), (Dot, Star), (Lit (CHR ''>''), One)] '' '' t;
          t = re_sub [(Lit (CHR '' ''), Plus)] '' '' t
      in t)"


section \<open>Questions and question groups (question.py)\<close>

text \<open>
  A raw question is the record the server sends. The source reads it through
  \<^verbatim>\<open>data["id"]["qid"]\<close>, \<^verbatim>\<open>data["parent_qid"]\<close>, \<^verbatim>\<open>data["sid"]\<close>, \<^verbatim>\<open>data["gid"]\<close>
  (each through \<^verbatim>\<open>int(...)\<close>), \<^verbatim>\<open>data["type"]\<close>, \<^verbatim>\<open>data["title"]\<close> and
  \<^verbatim>\<open>data["question"]\<close>; the record below holds these seven values, already well typed.
\<close>

record RawQuestion =
  raw_qid :: int
  raw_parent_qid :: int
  raw_sid :: int
  raw_gid :: int
  raw_type :: string
  raw_title :: string
  raw_question :: string

text \<open>
  A \<^verbatim>\<open>Question\<close> object holds its data, a reference to its parent (or \<^verbatim>\<open>None\<close>) and the
  dictionary of its children, keyed by question id. Parent and children refer to each
  other, so the objects live in a store and refer to each other by question id: the
  store is the dictionary \<^verbatim>\<open>questions_by_id\<close> of the survey, which holds every
  \<^verbatim>\<open>Question\<close> object under its own question id. The \<open>children\<close> field lists the
  keys of the Python dictionary in insertion order (the value under a key is the object
  of that id).
\<close>

record Question =
  data :: RawQuestion
  parent :: "int option"
  children :: "int list"

type_synonym questions = "(int \<times> Question) list"

definition new_Question :: "RawQuestion \<Rightarrow> Question" where
  "new_Question d = \<lparr>data = d, parent = None, children = []\<rparr>"

text \<open>
  \<open>obj qs r\<close> is the object the reference \<open>r\<close> points to. A Python reference always
  points to an object; in the store this means that \<open>r\<close> is a key of \<open>qs\<close>, which holds of
  every reference the construction stores (lemma \<open>load_questions_refs_closed\<close>).
\<close>

definition obj :: "questions \<Rightarrow> int \<Rightarrow> Question" where
  "obj qs r = the (map_of qs r)"

definition question_id :: "Question \<Rightarrow> int" where
  "question_id q = raw_qid (data q)"

definition parent_qid :: "Question \<Rightarrow> int" where
  "parent_qid q = raw_parent_qid (data q)"

definition own_title :: "Question \<Rightarrow> string" where
  \<comment> \<open>the property \<^verbatim>\<open>_title\<close>\<close>
  "own_title q = raw_title (data q)"

definition has_children :: "Question \<Rightarrow> bool" where
  "has_children q \<longleftrightarrow> length (children q) > 0"

definition is_child :: "Question \<Rightarrow> bool" where
  "is_child q \<longleftrightarrow> parent q \<noteq> None"

definition title :: "questions \<Rightarrow> Question \<Rightarrow> string" where
  "title qs q =
     (case parent q of
        Some p \<Rightarrow> own_title (obj qs p) @ ''['' @ own_title q @ '']''
      | None \<Rightarrow> own_title q)"

definition question_text :: "Question \<Rightarrow> string" where
  \<comment> \<open>the property \<^verbatim>\<open>text\<close> of a question\<close>
  "question_text q = clean_question_text (raw_question (data q))"

text \<open>
  \<^verbatim>\<open>self.children[child.question_id] = child\<close>: a new key goes to the end of the
  dictionary, a key already there keeps its place.
\<close>

definition add_child_key :: "int \<Rightarrow> int list \<Rightarrow> int list" where
  "add_child_key c cs = (if c \<in> set cs then cs else cs @ [c])"

text \<open>
  \<open>link_child qs self child\<close> and \<open>link_parent qs self p\<close> take the references of the two
  objects and return the store with both objects updated.
\<close>

definition link_child :: "questions \<Rightarrow> int \<Rightarrow> int \<Rightarrow> questions" where
  "link_child qs self child =
     (let qs = AList.update self
                 ((obj qs self)\<lparr>children := add_child_key (question_id (obj qs child))
                                                (children (obj qs self))\<rparr>) qs;
          qs = AList.update child ((obj qs child)\<lparr>parent := Some self\<rparr>) qs
      in qs)"

definition link_parent :: "questions \<Rightarrow> int \<Rightarrow> int \<Rightarrow> questions" where
  "link_parent qs self p =
     (let qs = AList.update self ((obj qs self)\<lparr>parent := Some p\<rparr>) qs
      in link_child qs p self)"

record QuestionGroup =
  group_parent :: int

definition child_items :: "questions \<Rightarrow> QuestionGroup \<Rightarrow> Question list" where
  \<comment> \<open>the values of \<^verbatim>\<open>self.parent.children\<close>, in the order of the dictionary\<close>
  "child_items qs g = map (obj qs) (children (obj qs (group_parent g)))"

definition key :: "questions \<Rightarrow> QuestionGroup \<Rightarrow> string" where
  "key qs g = title qs (obj qs (group_parent g))"

section \<open>Hierarchy construction (survey.py)\<close>

record Survey =
  questions_by_id :: questions
  question_groups_by_key :: "(string \<times> QuestionGroup) list"
  questions_by_title :: "(string \<times> int) list"

definition create_question_link :: "Survey \<Rightarrow> int \<Rightarrow> int \<Rightarrow> Survey" where
  "create_question_link s p child =
     s\<lparr>questions_by_id := link_parent (questions_by_id s) child p\<rparr>"

definition create_question_group :: "Survey \<Rightarrow> int \<Rightarrow> Survey" where
  "create_question_group s q =
     (if map_of (question_groups_by_key s) (title (questions_by_id s) (obj (questions_by_id s) q)) = None
      then let group = \<lparr>group_parent = q\<rparr>
           in s\<lparr>question_groups_by_key :=
                  AList.update (key (questions_by_id s) group) group (question_groups_by_key s)\<rparr>
      else s)"

text \<open>
  One turn of the loop of \<^verbatim>\<open>_process_question_relationships\<close>, for the question
  stored under \<open>k\<close>.
\<close>

definition process_question :: "Survey \<Rightarrow> int \<Rightarrow> Survey" where
  "process_question s k =
     (let q = obj (questions_by_id s) k
      in if map_of (questions_by_id s) (parent_qid q) \<noteq> None
         then let p = parent_qid q;
                  s = create_question_link s p k;
                  s = create_question_group s p
              in s
         else s)"

text \<open>
  The loop runs over \<^verbatim>\<open>self.questions_by_id.values()\<close>. Linking changes the objects, never
  the keys of the dictionary, so the loop visits the keys the dictionary has at its start,
  in their order.
\<close>

definition process_question_relationships :: "Survey \<Rightarrow> Survey" where
  "process_question_relationships s =
     foldl process_question (s\<lparr>question_groups_by_key := []\<rparr>) (map fst (questions_by_id s))"

text \<open>One turn of the loop of \<^verbatim>\<open>_create_question_title_mapping\<close>.\<close>

definition map_question_title :: "Survey \<Rightarrow> int \<Rightarrow> Survey" where
  "map_question_title s k =
     s\<lparr>questions_by_title :=
         AList.update (title (questions_by_id s) (obj (questions_by_id s) k)) k
           (questions_by_title s)\<rparr>"

definition create_question_title_mapping :: "Survey \<Rightarrow> Survey" where
  "create_question_title_mapping s =
     foldl map_question_title (s\<lparr>questions_by_title := []\<rparr>) (map fst (questions_by_id s))"

text \<open>
  \<^verbatim>\<open>_load_questions\<close> for the list \<open>raws\<close> that \<^verbatim>\<open>list_questions\<close> returned. Its first
  loop, \<open>index_questions\<close>, makes one object for each record and stores it under its question
  id: a later record of the same id replaces the earlier object and keeps its place in
  the dictionary.
\<close>

definition index_questions :: "RawQuestion list \<Rightarrow> questions" where
  "index_questions raws =
     foldl (\<lambda>qs q. AList.update (question_id (new_Question q)) (new_Question q) qs) [] raws"

definition load_questions :: "Survey \<Rightarrow> RawQuestion list \<Rightarrow> Survey" where
  "load_questions s raws =
     (let s = s\<lparr>questions_by_id := index_questions raws\<rparr>;
          s = process_question_relationships s;
          s = create_question_title_mapping s
      in s)"

text \<open>A survey before loading (the source holds \<^verbatim>\<open>None\<close> in the three attributes).\<close>

definition new_Survey :: Survey where
  "new_Survey = \<lparr>questions_by_id = [], question_groups_by_key = [], questions_by_title = []\<rparr>"


section \<open>Values, errors and responses (response.py, question.py)\<close>

text \<open>
  Answers, RPC results and server documents are JSON values as \<^verbatim>\<open>json.loads\<close> builds
  them: \<^verbatim>\<open>None\<close> is \<open>JNull\<close>, a \<^verbatim>\<open>dict\<close> is the list of its members in insertion order
  (with distinct keys). Numbers are kept to the integers.
\<close>

datatype json =
    JNull
  | JBool bool
  | JNum int
  | JStr string
  | JArr "json list"
  | JObj "(string \<times> json) list"

text \<open>The exceptions the modelled code raises or lets through, as values.\<close>

datatype pyerror =
    KeyError
  | AttributeError
  | TypeError
  | EnvironmentError
  | InvalidReplyError string
  | RPCError string
  | SessionKeyException string json
      \<comment> \<open>\<^verbatim>\<open>Exception("Failed to validate session key: url=... session_key=...")\<close>\<close>

text \<open>
  \<^verbatim>\<open>QuestionGroup.get_value\<close> calls \<^verbatim>\<open>response.get_answer\<close> with a \<^verbatim>\<open>Question\<close> object
  and \<^verbatim>\<open>get_other_value\<close> calls it with a title. The class \<^verbatim>\<open>Response\<close> of response.py
  has the attributes \<^verbatim>\<open>data\<close>, \<^verbatim>\<open>id\<close> and \<^verbatim>\<open>dict\<close> and no method \<^verbatim>\<open>get_answer\<close>; a
  subclass (the survey's \<^verbatim>\<open>response_cls\<close>) may define one. A response object is therefore
  its data and the method it has, if any; a lookup that raises returns \<open>Inl\<close>.
\<close>

datatype answer_key = QuestionKey Question | TitleKey string

record Response =
  response_data :: json
  get_answer :: "(answer_key \<Rightarrow> pyerror + json) option"

definition new_Response :: "json \<Rightarrow> Response" where
  \<comment> \<open>an instance of the base class: \<^verbatim>\<open>Response(data)\<close>\<close>
  "new_Response d = \<lparr>response_data = d, get_answer = None\<rparr>"

definition response_id :: "Response \<Rightarrow> pyerror + json" where
  \<comment> \<open>the property \<^verbatim>\<open>id\<close>: \<^verbatim>\<open>self.data['id']\<close>\<close>
  "response_id r =
     (case response_data r of
        JObj members \<Rightarrow> (case map_of members ''id'' of None \<Rightarrow> Inl KeyError | Some v \<Rightarrow> Inr v)
      | _ \<Rightarrow> Inl TypeError)"

definition response_dict :: "Response \<Rightarrow> json" where
  "response_dict r = response_data r"

fun get_value_loop :: "Response \<Rightarrow> Question list \<Rightarrow> string list \<Rightarrow> pyerror + string list" where
  "get_value_loop response [] response_values = Inr response_values"
| "get_value_loop response (sq # sqs) response_values =
     (case get_answer response of
        None \<Rightarrow> Inl AttributeError
      | Some lookup \<Rightarrow>
          (case lookup (QuestionKey sq) of
             Inl e \<Rightarrow> Inl e
           | Inr answer \<Rightarrow>
               if answer = JStr ''N/A'' then get_value_loop response sqs response_values
               else get_value_loop response sqs (response_values @ [question_text sq])))"

text \<open>\<open>get_other_value\<close> returns \<open>JNull\<close> where the source returns \<^verbatim>\<open>None\<close>.\<close>

definition get_other_value :: "questions \<Rightarrow> QuestionGroup \<Rightarrow> Response \<Rightarrow> pyerror + json" where
  "get_other_value qs g response =
     (case get_answer response of
        None \<Rightarrow> Inl AttributeError
      | Some lookup \<Rightarrow>
          (case lookup (TitleKey (title qs (obj qs (group_parent g)) @ ''[other]'')) of
             Inl e \<Rightarrow> if e = KeyError then Inr JNull else Inl e
           | Inr v \<Rightarrow> if v = JStr ''None'' then Inr JNull else Inr v))"

definition get_value :: "questions \<Rightarrow> QuestionGroup \<Rightarrow> Response \<Rightarrow> pyerror + json list" where
  "get_value qs g response =
     (case get_value_loop response (child_items qs g) [] of
        Inl e \<Rightarrow> Inl e
      | Inr response_values \<Rightarrow>
          (case get_other_value qs g response of
             Inl e \<Rightarrow> Inl e
           | Inr other_value \<Rightarrow>
               let response_values = map JStr (sort response_values)
               in if other_value \<noteq> JNull then Inr (response_values @ [other_value])
                  else Inr response_values))"

section \<open>The patched reply parser (lime.py, parse\_reply\_patched)\<close>

text \<open>
  Modelled from the spec: the constant \<^verbatim>\<open>_ALLOWED_REPLY_KEYS\<close> belongs to the class
  \<^verbatim>\<open>JSONRPCProtocol\<close> of the library the source patches and is not in the sources; the
  specification gives the allowed keys of a reply as id, result, error and jsonrpc.
\<close>

definition ALLOWED_REPLY_KEYS :: "string list" where
  "ALLOWED_REPLY_KEYS = [''error'', ''id'', ''jsonrpc'', ''result'']"

text \<open>
  The two response classes. \<open>error_code\<close> is the attribute \<^verbatim>\<open>code\<close>, which the parser
  sets for a string error only; \<open>error_data\<close> is the attribute \<^verbatim>\<open>data\<close>, set when the
  error object has one.
\<close>

datatype rpc_response =
    JSONRPCErrorResponse
      (error_message: json) (error_code: "int option") (jsonrpc_error_code: json)
      (error_data: "json option") (unique_id: json)
  | JSONRPCSuccessResponse (result: json) (unique_id: json)

fun error_response :: "json \<Rightarrow> json \<Rightarrow> pyerror + rpc_response" where
  "error_response (JStr e) uid = Inr (JSONRPCErrorResponse (JStr e) (Some (- 1)) (JNum (- 1)) None uid)"
| "error_response (JObj members) uid =
     (case map_of members ''message'' of
        None \<Rightarrow> Inl KeyError
      | Some m \<Rightarrow>
          (case map_of members ''code'' of
             None \<Rightarrow> Inl KeyError
           | Some c \<Rightarrow> Inr (JSONRPCErrorResponse m None c (map_of members ''data'') uid)))"
| "error_response e uid = Inl TypeError"

text \<open>
  \<open>json_loads\<close> stands for \<^verbatim>\<open>json.loads\<close> (after the decoding of a byte string): it
  returns the value or the message of the exception it raises.
\<close>

definition parse_reply_patched :: "(string \<Rightarrow> string + json) \<Rightarrow> string \<Rightarrow> pyerror + rpc_response" where
  "parse_reply_patched json_loads body =
     (case json_loads body of
        Inl msg \<Rightarrow> Inl (InvalidReplyError msg)
      | Inr rep \<Rightarrow>
          (case rep of
             JObj members \<Rightarrow>
               (case find (\<lambda>k. k \<notin> set ALLOWED_REPLY_KEYS) (map fst members) of
                  Some k \<Rightarrow> Inl (InvalidReplyError (''Key not allowed: '' @ k))
                | None \<Rightarrow>
                    (case map_of members ''id'' of
                       None \<Rightarrow> Inl (InvalidReplyError ''Missing id in response'')
                     | Some uid \<Rightarrow>
                         (case map_of members ''error'' of
                            None \<Rightarrow>
                              Inr (JSONRPCSuccessResponse
                                     (case map_of members ''result'' of None \<Rightarrow> JNull | Some r \<Rightarrow> r) uid)
                          | Some e \<Rightarrow>
                              if e \<noteq> JNull then error_response e uid
                              else Inr (JSONRPCSuccessResponse
                                     (case map_of members ''result'' of None \<Rightarrow> JNull | Some r \<Rightarrow> r) uid))))
           | _ \<Rightarrow> Inl AttributeError))"


section \<open>The API client (lime.py, LimeAPI)\<close>

text \<open>
  A call through the RPC proxy sends one request over the network and returns the
  decoded result or raises. The remote end is a parameter of the model: it answers a
  request, given the requests sent before it. The client state records every request it
  sends in \<open>requests_sent\<close>, a history the source does not keep, so that the network
  calls of an operation can be counted. \<open>rpc_protocol_patched\<close> is the class attribute
  \<^verbatim>\<open>_rpc_protocol_patched\<close>, as the one client of the model sees it.
\<close>

record rpc_request =
  rpc_method :: string
  rpc_params :: "(string \<times> json) list"

type_synonym remote = "rpc_request list \<Rightarrow> rpc_request \<Rightarrow> pyerror + json"

datatype RPCClient = RPCClient string "(string \<times> string) list"

datatype RPCProxy = RPCProxy RPCClient

record LimeAPI =
  url :: string
  username :: string
  password :: string
  headers :: "(string \<times> string) list"
  session_key :: json
  rpc_client :: "RPCClient option"
  rpc_proxy :: "RPCProxy option"
  authenticated :: bool
  rpc_protocol_patched :: bool
  requests_sent :: "rpc_request list"

definition default_headers :: "(string \<times> string) list" where
  "default_headers = [(''content-type'', ''application/json''), (''connection'', ''Keep-Alive'')]"

definition validate_settings :: "string option \<Rightarrow> string option \<Rightarrow> string option \<Rightarrow> pyerror + unit" where
  "validate_settings u n p = (if None \<in> set [u, n, p] then Inl EnvironmentError else Inr ())"

text \<open>
  \<^verbatim>\<open>_rpc_protocol_patched\<close> belongs to the class, not to the object: a new client finds
  the value the class has at that moment, which \<open>new_LimeAPI\<close> takes as \<open>patched\<close>.
\<close>

definition new_LimeAPI ::
  "bool \<Rightarrow> string option \<Rightarrow> string option \<Rightarrow> string option \<Rightarrow> (string \<times> string) list option \<Rightarrow>
   pyerror + LimeAPI" where
  "new_LimeAPI patched u n p h =
     (case validate_settings u n p of
        Inl e \<Rightarrow> Inl e
      | Inr _ \<Rightarrow>
          Inr \<lparr>url = the u, username = the n, password = the p,
               headers = (case h of None \<Rightarrow> default_headers | Some hs \<Rightarrow> hs),
               session_key = JNull, rpc_client = None, rpc_proxy = None,
               authenticated = False, rpc_protocol_patched = patched, requests_sent = []\<rparr>)"

definition remote_api_url :: "LimeAPI \<Rightarrow> string" where
  "remote_api_url st =
     rev (dropWhile (\<lambda>c. c = CHR ''/'') (rev (url st))) @ ''/'' @ ''/index.php/admin/remotecontrol''"

definition rpc_call :: "remote \<Rightarrow> LimeAPI \<Rightarrow> rpc_request \<Rightarrow> (pyerror + json) \<times> LimeAPI" where
  "rpc_call server st req =
     (server (requests_sent st) req, st\<lparr>requests_sent := requests_sent st @ [req]\<rparr>)"

definition validate_rpc_resources :: "LimeAPI \<Rightarrow> bool" where
  "validate_rpc_resources st =
     (if rpc_client st = None then False
      else if rpc_proxy st = None then False
      else True)"

definition validate_session_key :: "LimeAPI \<Rightarrow> bool" where
  "validate_session_key st =
     (case session_key st of
        JNull \<Rightarrow> False
      | JStr k \<Rightarrow> if length k = 0 then False else True
      | _ \<Rightarrow> False)"

definition authenticate :: "remote \<Rightarrow> LimeAPI \<Rightarrow> (pyerror + unit) \<times> LimeAPI" where
  "authenticate server st =
     (let st = st\<lparr>rpc_protocol_patched := True\<rparr>;
          client = RPCClient (remote_api_url st) (headers st);
          st = st\<lparr>rpc_client := Some client\<rparr>;
          st = st\<lparr>rpc_proxy := Some (RPCProxy client)\<rparr>;
          (r, st) = rpc_call server st
                      \<lparr>rpc_method = ''get_session_key'',
                       rpc_params = [(''username'', JStr (username st)),
                                     (''password'', JStr (password st))]\<rparr>
      in case r of
           Inl e \<Rightarrow> (Inl e, st)
         | Inr k \<Rightarrow>
             let st = st\<lparr>session_key := k\<rparr>
             in if \<not> validate_session_key st
                then (Inl (SessionKeyException (url st) (session_key st)), st)
                else (Inr (), st\<lparr>authenticated := True\<rparr>))"

definition validate_auth :: "remote \<Rightarrow> LimeAPI \<Rightarrow> (pyerror + unit) \<times> LimeAPI" where
  "validate_auth server st =
     (if \<not> authenticated st then authenticate server st
      else if \<not> validate_session_key st then authenticate server st
      else if \<not> validate_rpc_resources st then authenticate server st
      else (Inr (), st))"

text \<open>
  \<^verbatim>\<open>request_ctx\<close> runs \<^verbatim>\<open>_validate_auth\<close> and then the body of the \<^verbatim>\<open>with\<close> block; an
  exception of either is caught, printed and raised again, so the caller sees it
  unchanged. (Logging and timing are left out.)
\<close>

definition request_ctx ::
  "remote \<Rightarrow> LimeAPI \<Rightarrow> (LimeAPI \<Rightarrow> (pyerror + 'a) \<times> LimeAPI) \<Rightarrow> (pyerror + 'a) \<times> LimeAPI" where
  "request_ctx server st body =
     (case validate_auth server st of
        (Inl e, st) \<Rightarrow> (Inl e, st)
      | (Inr _, st) \<Rightarrow> body st)"

text \<open>What Python does with the decoded document: subscripting, iteration, \<^verbatim>\<open>.values()\<close>.\<close>

fun py_getitem :: "json \<Rightarrow> string \<Rightarrow> pyerror + json" where
  "py_getitem (JObj members) k = (case map_of members k of None \<Rightarrow> Inl KeyError | Some v \<Rightarrow> Inr v)"
| "py_getitem v k = Inl TypeError"

fun py_iter :: "json \<Rightarrow> pyerror + json list" where
  "py_iter (JArr xs) = Inr xs"
| "py_iter (JObj members) = Inr (map (\<lambda>m. JStr (fst m)) members)"
| "py_iter (JStr s) = Inr (map (\<lambda>c. JStr [c]) s)"
| "py_iter v = Inl TypeError"

fun py_values :: "json \<Rightarrow> pyerror + json list" where
  "py_values (JObj members) = Inr (map snd members)"
| "py_values v = Inl AttributeError"

fun export_rows :: "json list \<Rightarrow> json list \<Rightarrow> pyerror + json list" where
  "export_rows [] rows = Inr rows"
| "export_rows (id_survey_map # rest) rows =
     (case py_values id_survey_map of
        Inl e \<Rightarrow> Inl e
      | Inr surveys \<Rightarrow> export_rows rest (rows @ surveys))"

definition opt_json :: "('a \<Rightarrow> json) \<Rightarrow> 'a option \<Rightarrow> json" where
  "opt_json f x = (case x of None \<Rightarrow> JNull | Some v \<Rightarrow> f v)"

text \<open>
  \<open>b64_json\<close> stands for \<^verbatim>\<open>json.loads(base64.b64decode(result_b64).decode("utf-8"))\<close>, the
  three library calls that turn the result of the request into a document. The lists
  \<^verbatim>\<open>_completion_statuses\<close>, \<^verbatim>\<open>_heading_types\<close> and \<^verbatim>\<open>_response_types\<close> are assigned
  in the source and never read.
\<close>

text \<open>The request that \<^verbatim>\<open>self.rpc_proxy.export_responses(...)\<close> sends, with its named parameters.\<close>

definition export_responses_request ::
  "json \<Rightarrow> int \<Rightarrow> string option \<Rightarrow> string \<Rightarrow> string \<Rightarrow> string \<Rightarrow> int option \<Rightarrow> int option \<Rightarrow> json \<Rightarrow>
   rpc_request" where
  "export_responses_request skey survey_id language_code completion_status heading_type
     response_type from_response_id to_response_id a_fields =
     \<lparr>rpc_method = ''export_responses'',
      rpc_params =
        [(''sSessionKey'', skey),
         (''iSurveyID'', JNum survey_id),
         (''sDocumentType'', JStr ''json''),
         (''sLanguageCode'', opt_json JStr language_code),
         (''sCompletionStatus'', JStr completion_status),
         (''sHeadingType'', JStr heading_type),
         (''sResponseType'', JStr response_type),
         (''iFromResponseID'', opt_json JNum from_response_id),
         (''iToResponseID'', opt_json JNum to_response_id),
         (''aFields'', a_fields)]\<rparr>"

definition export_responses ::
  "remote \<Rightarrow> (json \<Rightarrow> pyerror + json) \<Rightarrow> LimeAPI \<Rightarrow> int \<Rightarrow> string option \<Rightarrow> string \<Rightarrow> string \<Rightarrow> string \<Rightarrow>
   int option \<Rightarrow> int option \<Rightarrow> json \<Rightarrow> (pyerror + json list) \<times> LimeAPI" where
  "export_responses server b64_json st survey_id language_code completion_status heading_type
     response_type from_response_id to_response_id a_fields =
     request_ctx server st (\<lambda>st.
       let completion_statuses = [''complete'', ''incomplete'', ''all''];
           heading_types = [''code'', ''full'', ''abbreviated''];
           response_types = [''short'', ''long''];
           (r, st) = rpc_call server st
                       (export_responses_request (session_key st) survey_id language_code
                          completion_status heading_type response_type
                          from_response_id to_response_id a_fields)
       in case r of
            Inl e \<Rightarrow> (Inl e, st)
          | Inr result_b64 \<Rightarrow>
              (case b64_json result_b64 of
                 Inl e \<Rightarrow> (Inl e, st)
               | Inr result_json \<Rightarrow>
                   (case py_getitem result_json ''responses'' of
                      Inl e \<Rightarrow> (Inl e, st)
                    | Inr result_json \<Rightarrow>
                        (case py_iter result_json of
                           Inl e \<Rightarrow> (Inl e, st)
                         | Inr maps \<Rightarrow> (export_rows maps [], st)))))"

section \<open>Descriptions the properties are stated with\<close>

subsection \<open>The text cleaner, in the words of the specification\<close>

text \<open>
  The specification describes the cleaner in three steps: every newline, tab and
  carriage return becomes a space; the span from the first \<^verbatim>\<open><\<close> to the last \<^verbatim>\<open>>\<close>
  becomes one space; every run of spaces becomes one space. The three definitions below
  say this without regular expressions. Positions count from 0; there is a span only
  when the last \<^verbatim>\<open>>\<close> stands behind the first \<^verbatim>\<open><\<close>.
\<close>

definition ws_to_space :: "char \<Rightarrow> char" where
  "ws_to_space c = (if c = CHR 0x0A \<or> c = CHR 0x09 \<or> c = CHR 0x0D then CHR '' '' else c)"

definition first_index :: "char \<Rightarrow> string \<Rightarrow> nat option" where
  "first_index c s =
     (if c \<in> set s then Some (length (takeWhile (\<lambda>x. x \<noteq> c) s)) else None)"

definition last_index :: "char \<Rightarrow> string \<Rightarrow> nat option" where
  "last_index c s =
     (if c \<in> set s then Some (length s - Suc (length (takeWhile (\<lambda>x. x \<noteq> c) (rev s))))
      else None)"

definition spec_collapse_tag_span :: "string \<Rightarrow> string" where
  "spec_collapse_tag_span s =
     (case (first_index (CHR ''<'') s, last_index (CHR ''>'') s) of
        (Some i, Some j) \<Rightarrow> if i < j then take i s @ '' '' @ drop (Suc j) s else s
      | _ \<Rightarrow> s)"

function squeeze_spaces :: "string \<Rightarrow> string" where
  "squeeze_spaces [] = []"
| "squeeze_spaces (x # s) =
     (if x = CHR '' '' then CHR '' '' # squeeze_spaces (dropWhile (\<lambda>y. y = CHR '' '') s)
      else x # squeeze_spaces s)"
  by pat_completeness auto
termination
  by (relation "measure length") (auto simp: length_dropWhile_le less_Suc_eq_le)

text \<open>Two auxiliary forms of the span, used in the proofs.\<close>

definition after_last :: "char \<Rightarrow> string \<Rightarrow> string" where
  "after_last c s = rev (takeWhile (\<lambda>x. x \<noteq> c) (rev s))"

definition collapse_tag_span :: "string \<Rightarrow> string" where
  "collapse_tag_span s =
     (let before = takeWhile (\<lambda>x. x \<noteq> CHR ''<'') s;
          rest = drop (Suc (length before)) s
      in if CHR ''<'' \<in> set s \<and> CHR ''>'' \<in> set rest
         then before @ '' '' @ after_last (CHR ''>'') rest
         else s)"

subsection \<open>Groups and children\<close>

text \<open>
  \<open>has_group s k\<close>: some group of the group mapping has the question stored under \<open>k\<close>
  as its parent.
\<close>

definition has_group :: "Survey \<Rightarrow> int \<Rightarrow> bool" where
  "has_group s k \<longleftrightarrow> (\<exists>(t, g) \<in> set (question_groups_by_key s). group_parent g = k)"

text \<open>
  The titles a question can show while the hierarchy is built: its own title, and, when
  its parent is loaded, the parent's own title followed by its own title in brackets.
  \<open>is_parent qs k\<close>: some loaded question names \<open>k\<close> as its parent.
  \<open>titles_unambiguous qs\<close>: no two different parents can show the same title.
\<close>

definition possible_titles :: "questions \<Rightarrow> int \<Rightarrow> string list" where
  "possible_titles qs k =
     (let q = obj qs k
      in own_title q #
         (if map_of qs (parent_qid q) \<noteq> None
          then [own_title (obj qs (parent_qid q)) @ ''['' @ own_title q @ '']'']
          else []))"

definition is_parent :: "questions \<Rightarrow> int \<Rightarrow> bool" where
  "is_parent qs k \<longleftrightarrow> (\<exists>c \<in> set (map fst qs). parent_qid (obj qs c) = k)"

definition titles_unambiguous :: "questions \<Rightarrow> bool" where
  "titles_unambiguous qs \<longleftrightarrow>
     (\<forall>p1 \<in> set (map fst qs). \<forall>p2 \<in> set (map fst qs).
        p1 \<noteq> p2 \<and> is_parent qs p1 \<and> is_parent qs p2 \<longrightarrow>
        set (possible_titles qs p1) \<inter> set (possible_titles qs p2) = {})"

subsection \<open>Aggregated group values\<close>

text \<open>
  \<open>selected lookup sq\<close>: the answer for the sub-question is not the sentinel
  \<^verbatim>\<open>"N/A"\<close>. \<open>selected_texts\<close>: the cleaned texts of the selected sub-questions of
  a group, sorted.
\<close>

definition selected :: "(answer_key \<Rightarrow> pyerror + json) \<Rightarrow> Question \<Rightarrow> bool" where
  "selected lookup sq \<longleftrightarrow> lookup (QuestionKey sq) \<noteq> Inr (JStr ''N/A'')"

definition selected_texts ::
  "questions \<Rightarrow> QuestionGroup \<Rightarrow> (answer_key \<Rightarrow> pyerror + json) \<Rightarrow> json list" where
  "selected_texts qs g lookup =
     map JStr (sort (map question_text (filter (selected lookup) (child_items qs g))))"

text \<open>
  \<open>first_lookup_error lookup sqs\<close>: the error of the first sub-question of \<open>sqs\<close>, in
  their order, whose lookup raises; \<open>None\<close> when every lookup returns an answer.
\<close>

fun first_lookup_error :: "(answer_key \<Rightarrow> pyerror + json) \<Rightarrow> Question list \<Rightarrow> pyerror option" where
  "first_lookup_error lookup [] = None"
| "first_lookup_error lookup (sq # sqs) =
     (case lookup (QuestionKey sq) of
        Inl e \<Rightarrow> Some e
      | Inr a \<Rightarrow> first_lookup_error lookup sqs)"

section \<open>Invariants of the hierarchy construction\<close>

text \<open>
  \<open>fresh_store\<close> holds of the store right after indexing: distinct keys, every object
  under its own question id, nothing linked. \<open>store_ok qs0 qs\<close> relates the store \<open>qs\<close>
  during linking to the indexed store \<open>qs0\<close>: same keys, same data, every parent link is
  the link the data asks for, every entry of a children dictionary is a loaded question
  that names the owner as its parent. \<open>groups_ok\<close>: every group of the mapping belongs
  to a loaded question that has a child, under one of the titles that question can show.
\<close>

definition fresh_store :: "questions \<Rightarrow> bool" where
  "fresh_store qs \<longleftrightarrow>
     distinct (map fst qs) \<and>
     (\<forall>k \<in> set (map fst qs).
        question_id (obj qs k) = k \<and> parent (obj qs k) = None \<and> children (obj qs k) = [])"

definition store_ok :: "questions \<Rightarrow> questions \<Rightarrow> bool" where
  "store_ok qs0 qs \<longleftrightarrow>
     map fst qs = map fst qs0 \<and>
     (\<forall>k. data (obj qs k) = data (obj qs0 k)) \<and>
     (\<forall>k \<in> set (map fst qs0).
        parent (obj qs k) = None \<or>
        parent (obj qs k) = Some (parent_qid (obj qs0 k)) \<and>
        parent_qid (obj qs0 k) \<in> set (map fst qs0)) \<and>
     (\<forall>k \<in> set (map fst qs0). \<forall>c \<in> set (children (obj qs k)).
        c \<in> set (map fst qs0) \<and> parent_qid (obj qs0 c) = k)"

definition groups_ok :: "questions \<Rightarrow> questions \<Rightarrow> (string \<times> QuestionGroup) list \<Rightarrow> bool" where
  "groups_ok qs0 qs gs \<longleftrightarrow>
     distinct (map fst gs) \<and>
     (\<forall>(t, g) \<in> set gs.
        group_parent g \<in> set (map fst qs0) \<and>
        children (obj qs (group_parent g)) \<noteq> [] \<and>
        t \<in> set (possible_titles qs0 (group_parent g)))"

definition hier_inv :: "questions \<Rightarrow> Survey \<Rightarrow> bool" where
  "hier_inv qs0 s \<longleftrightarrow>
     store_ok qs0 (questions_by_id s) \<and>
     groups_ok qs0 (questions_by_id s) (question_groups_by_key s)"

definition all_grouped :: "Survey \<Rightarrow> bool" where
  "all_grouped s \<longleftrightarrow>
     (\<forall>k \<in> set (map fst (questions_by_id s)).
        has_children (obj (questions_by_id s) k) \<longrightarrow> has_group s k)"

section \<open>Example data\<close>

text \<open>
  The survey of the specification's hierarchy example: question 1 titled Q1 with the
  sub-questions 2 (A) and 3 (B).
\<close>

definition raw :: "int \<Rightarrow> int \<Rightarrow> string \<Rightarrow> string \<Rightarrow> RawQuestion" where
  "raw i p t q =
     \<lparr>raw_qid = i, raw_parent_qid = p, raw_sid = 7, raw_gid = 1, raw_type = ''M'',
      raw_title = t, raw_question = q\<rparr>"

definition example_raws :: "RawQuestion list" where
  "example_raws =
     [raw 1 0 ''Q1'' ''Which options?'', raw 2 1 ''A'' ''Option A'', raw 3 1 ''B'' ''Option  B'']"

definition example_qs :: questions where
  "example_qs = questions_by_id (load_questions new_Survey example_raws)"

definition example_group :: QuestionGroup where
  "example_group = \<lparr>group_parent = 1\<rparr>"

text \<open>
  Two parents, Q1 and Q2, whose sub-questions use the same codes; and two parents that
  share the title X.
\<close>

definition two_parent_raws :: "RawQuestion list" where
  "two_parent_raws =
     [raw 1 0 ''Q1'' ''First'', raw 2 1 ''SQ001'' ''a'', raw 3 1 ''SQ002'' ''b'',
      raw 4 0 ''Q2'' ''Second'', raw 5 4 ''SQ001'' ''c'']"

definition same_title_raws :: "RawQuestion list" where
  "same_title_raws =
     [raw 1 0 ''X'' ''First'', raw 2 0 ''X'' ''Second'', raw 3 1 ''A'' ''a'', raw 4 2 ''B'' ''b'']"

text \<open>
  A response class with a \<^verbatim>\<open>get_answer\<close> that looks a title up in a dictionary
  (\<^verbatim>\<open>KeyError\<close> when it is absent); a sub-question is looked up under the title it
  shows in the store \<open>qs\<close>.
\<close>

definition lookup_in :: "questions \<Rightarrow> (string \<times> json) list \<Rightarrow> answer_key \<Rightarrow> pyerror + json" where
  "lookup_in qs d k =
     (case map_of d (case k of QuestionKey q \<Rightarrow> title qs q | TitleKey t \<Rightarrow> t) of
        None \<Rightarrow> Inl KeyError
      | Some v \<Rightarrow> Inr v)"

definition answering :: "questions \<Rightarrow> (string \<times> json) list \<Rightarrow> Response" where
  "answering qs d = \<lparr>response_data = JObj d, get_answer = Some (lookup_in qs d)\<rparr>"

text \<open>An authenticated client, a remote end that answers every request alike, and replies.\<close>

definition valid_session :: LimeAPI where
  "valid_session =
     \<lparr>url = ''https://survey.example.org/'', username = ''admin'', password = ''secret'',
      headers = default_headers, session_key = JStr ''k3y'',
      rpc_client = Some (RPCClient ''https://survey.example.org//index.php/admin/remotecontrol'' default_headers),
      rpc_proxy = Some (RPCProxy (RPCClient ''https://survey.example.org//index.php/admin/remotecontrol'' default_headers)),
      authenticated = True, rpc_protocol_patched = True, requests_sent = []\<rparr>"

definition answers_with :: "json \<Rightarrow> remote" where
  "answers_with v sent req = Inr v"

definition decodes_to :: "json \<Rightarrow> json \<Rightarrow> pyerror + json" where
  "decodes_to document b64 = Inr document"

definition two_responses :: json where
  "two_responses =
     JObj [(''responses'',
            JArr [JObj [(''1'', JObj [(''id'', JNum 1), (''q1'', JStr ''x'')])],
                  JObj [(''2'', JObj [(''id'', JNum 2), (''q1'', JStr ''y'')])]])]"

definition loads_to :: "json \<Rightarrow> string \<Rightarrow> string + json" where
  "loads_to v body = Inr v"

definition bad_creds_reply :: "(string \<times> json) list" where
  "bad_creds_reply = [(''id'', JNum 1), (''result'', JNull), (''error'', JStr ''bad creds'')]"

definition extra_key_reply :: "(string \<times> json) list" where
  "extra_key_reply = [(''id'', JNum 1), (''error'', JStr ''bad creds''), (''extra'', JNum 0)]"


section \<open>The text cleaner\<close>

lemma re_sub_ws:
  "re_sub [(Class [CHR 0x0A, CHR 0x09, CHR 0x0D], One)] '' '' s = map ws_to_space s"
  by (induction s) (auto simp: ws_to_space_def)

lemma after_last_Cons:
  "after_last c (x # s) = (if c \<in> set s then after_last c s else if x = c then s else x # s)"
  by (auto simp: after_last_def takeWhile_append)

lemma after_last_no: "c \<notin> set (after_last c s)"
  unfolding after_last_def by (auto dest: set_takeWhileD)

lemma length_after_last: "length (after_last c s) \<le> length s"
  unfolding after_last_def using length_takeWhile_le[of _ "rev s"] by simp

lemma match_dot_star_gt:
  "CHR 0x0A \<notin> set s \<Longrightarrow>
   match_here [(Dot, Star), (Lit (CHR ''>''), One)] s =
     (if CHR ''>'' \<in> set s then Some (after_last (CHR ''>'') s) else None)"
  by (induction s) (auto simp: after_last_Cons)

lemma match_dot_star_no_gt:
  "CHR ''>'' \<notin> set s \<Longrightarrow> match_here [(Dot, Star), (Lit (CHR ''>''), One)] s = None"
  by (induction s) auto

lemma re_sub_tag_no_gt:
  "CHR ''>'' \<notin> set s \<Longrightarrow>
   re_sub [(Lit (CHR ''<''), One), (Dot, Star), (Lit (CHR ''>''), One)] repl s = s"
  by (induction s) (auto simp: match_dot_star_no_gt)

text \<open>
  On a text without newline the tag pattern matches once at most: from the first
  \<^verbatim>\<open><\<close> that has a \<^verbatim>\<open>>\<close> behind it to the last \<^verbatim>\<open>>\<close>.
\<close>

lemma re_sub_tag:
  "CHR 0x0A \<notin> set s \<Longrightarrow>
   re_sub [(Lit (CHR ''<''), One), (Dot, Star), (Lit (CHR ''>''), One)] '' '' s =
     collapse_tag_span s"
proof (induction s)
  case Nil
  show ?case by (simp add: collapse_tag_span_def)
next
  case (Cons x s)
  show ?case
  proof (cases "x = CHR ''<''")
    case True
    show ?thesis
    proof (cases "CHR ''>'' \<in> set s")
      case gt: True
      have "length (after_last (CHR ''>'') s) < Suc (length s)"
        using length_after_last[of "CHR ''>''" s] by simp
      then show ?thesis using True gt Cons.prems
        by (simp add: match_dot_star_gt collapse_tag_span_def re_sub_tag_no_gt after_last_no)
    next
      case False
      then show ?thesis using True
        by (simp add: match_dot_star_no_gt collapse_tag_span_def re_sub_tag_no_gt)
    qed
  next
    case False
    then show ?thesis using Cons
      by (auto simp: collapse_tag_span_def Let_def)
  qed
qed

lemma match_space_star:
  "match_here [(Lit (CHR '' ''), Star)] s = Some (dropWhile (\<lambda>y. y = CHR '' '') s)"
  by (induction s) auto

lemma re_sub_spaces: "re_sub [(Lit (CHR '' ''), Plus)] '' '' s = squeeze_spaces s"
proof (induction s rule: squeeze_spaces.induct)
  case 1
  show ?case by simp
next
  case (2 x s)
  have "length (dropWhile (\<lambda>y. y = CHR '' '') s) < Suc (length s)"
    using length_dropWhile_le[of _ s] by (simp add: less_Suc_eq_le)
  then show ?case using 2 by (simp add: match_space_star)
qed

text \<open>The span by positions is the span the matcher finds.\<close>

lemma first_split:
  assumes "c \<in> set s"
  shows "\<exists>a b. s = a @ c # b \<and> c \<notin> set a \<and> first_index c s = Some (length a)"
proof -
  let ?a = "takeWhile (\<lambda>x. x \<noteq> c) s"
  let ?d = "dropWhile (\<lambda>x. x \<noteq> c) s"
  have ne: "?d \<noteq> []" using assms by simp
  moreover have "hd ?d = c" using hd_dropWhile[OF ne] by simp
  ultimately have "?d = c # tl ?d" by (cases ?d) auto
  then have "s = ?a @ c # tl ?d" using takeWhile_dropWhile_id[of "\<lambda>x. x \<noteq> c" s] by simp
  moreover have "c \<notin> set ?a" by (auto dest: set_takeWhileD)
  ultimately show ?thesis using assms unfolding first_index_def by auto
qed

lemma last_split:
  assumes "c \<in> set s"
  shows "\<exists>a b. s = a @ c # b \<and> c \<notin> set b \<and> last_index c s = Some (length a) \<and>
           after_last c s = b"
proof -
  have "c \<in> set (rev s)" using assms by simp
  from first_split[OF this] obtain a b where
    ab: "rev s = a @ c # b" "c \<notin> set a" by blast
  have "rev (rev s) = rev (a @ c # b)" using ab(1) by simp
  then have s: "s = rev b @ c # rev a" by simp
  have tw: "takeWhile (\<lambda>x. x \<noteq> c) (rev s) = a"
    unfolding ab(1) using ab(2) by (subst takeWhile_append2) auto
  have "length s - Suc (length a) = length (rev b)" by (subst s) simp
  then have "last_index c s = Some (length (rev b))"
    using assms by (simp add: last_index_def tw)
  moreover have "after_last c s = rev a" unfolding after_last_def tw ..
  moreover have "c \<notin> set (rev a)" using ab(2) by simp
  ultimately show ?thesis using s by blast
qed

lemma append_Cons_eq_shorter:
  assumes "a @ x # b = p @ y # q" "length a < length p"
  shows "\<exists>p'. p = a @ x # p' \<and> b = p' @ y # q"
proof -
  from assms(1) obtain us where
    "a = p @ us \<and> us @ x # b = y # q \<or> a @ us = p \<and> x # b = us @ y # q"
    by (auto simp: append_eq_append_conv2)
  then have us: "a @ us = p" "x # b = us @ y # q" using assms(2) by auto
  then have "us \<noteq> []" using assms(2) by auto
  then obtain p' where "us = x # p'" using us(2) by (cases us) auto
  then show ?thesis using us by auto
qed

lemma collapse_eq: "spec_collapse_tag_span s = collapse_tag_span s"
proof (cases "CHR ''<'' \<in> set s")
  case False
  then show ?thesis
    by (simp add: spec_collapse_tag_span_def collapse_tag_span_def first_index_def)
next
  case True
  from first_split[OF True] obtain a b where
    ab: "s = a @ CHR ''<'' # b" "CHR ''<'' \<notin> set a"
        "first_index (CHR ''<'') s = Some (length a)" by blast
  have tw: "takeWhile (\<lambda>x. x \<noteq> CHR ''<'') s = a"
    unfolding ab(1) using ab(2) by (subst takeWhile_append2) auto
  have rest: "drop (Suc (length a)) s = b" unfolding ab(1) by simp
  show ?thesis
  proof (cases "CHR ''>'' \<in> set s")
    case False
    then have "CHR ''>'' \<notin> set b" using ab(1) by auto
    then show ?thesis using False True
      by (simp add: spec_collapse_tag_span_def collapse_tag_span_def last_index_def ab(3) tw rest)
  next
    case gt: True
    from last_split[OF gt] obtain p q where
      pq: "s = p @ CHR ''>'' # q" "CHR ''>'' \<notin> set q"
          "last_index (CHR ''>'') s = Some (length p)" by blast
    show ?thesis
    proof (cases "length a < length p")
      case lt: True
      from append_Cons_eq_shorter[OF _ lt, of "CHR ''<''" b "CHR ''>''" q] ab(1) pq(1)
      obtain p' where p': "p = a @ CHR ''<'' # p'" "b = p' @ CHR ''>'' # q" by auto
      have "after_last (CHR ''>'') b = q"
        unfolding after_last_def p'(2) using pq(2) by (simp, subst takeWhile_append2) auto
      moreover have "take (length a) s = a" unfolding ab(1) by simp
      moreover have "drop (Suc (length p)) s = q" unfolding pq(1) by simp
      moreover have "CHR ''>'' \<in> set b" using p'(2) by simp
      ultimately show ?thesis using True lt
        by (simp add: spec_collapse_tag_span_def collapse_tag_span_def ab(3) pq(3) tw rest)
    next
      case False
      have "s ! length a = CHR ''<''" "s ! length p = CHR ''>''"
        using ab(1) pq(1) by (metis nth_append_length)+
      then have "length a \<noteq> length p" by auto
      then have lt: "length p < length a" using False by simp
      from append_Cons_eq_shorter[OF _ lt, of "CHR ''>''" q "CHR ''<''" b] ab(1) pq(1)
      obtain a' where "q = a' @ CHR ''<'' # b" by auto
      then have "CHR ''>'' \<notin> set b" using pq(2) by auto
      then show ?thesis using False
        by (simp add: spec_collapse_tag_span_def collapse_tag_span_def ab(3) pq(3) tw rest)
    qed
  qed
qed

text \<open>
  Claim C9. For every input text the cleaner returns what the three steps of the
  specification describe: newline, tab and carriage return become spaces; then the span
  from the first \<^verbatim>\<open><\<close> to the last \<^verbatim>\<open>>\<close> of the whole text (one span, whatever
  tags it covers) becomes a single space; then every run of spaces becomes one space.
  No other character changes.
\<close>

theorem clean_question_text_spec:
  "clean_question_text text =
     squeeze_spaces (spec_collapse_tag_span (map ws_to_space text))"
proof -
  have "CHR 0x0A \<notin> set (map ws_to_space text)"
    by (auto simp: ws_to_space_def)
  then show ?thesis
    by (simp add: clean_question_text_def re_sub_ws re_sub_tag re_sub_spaces collapse_eq)
qed

theorem clean_question_text_spec_witness:
  "clean_question_text ''One <b>bold</b>  and <i>two</i> tags  here'' = ''One tags here'' \<and>
   clean_question_text ''a > b < c'' = ''a > b < c''"
proof -
  have "squeeze_spaces (spec_collapse_tag_span
          (map ws_to_space ''One <b>bold</b>  and <i>two</i> tags  here'')) = ''One tags here''"
    by code_simp
  moreover have "squeeze_spaces (spec_collapse_tag_span (map ws_to_space ''a > b < c'')) =
      ''a > b < c''"
    by code_simp
  ultimately show ?thesis
    using clean_question_text_spec[of "''One <b>bold</b>  and <i>two</i> tags  here''"]
      clean_question_text_spec[of "''a > b < c''"]
    by simp
qed

section \<open>Hierarchy construction\<close>

subsection \<open>What linking does to the store\<close>

lemma obj_update: "obj (AList.update k v qs) k' = (if k' = k then v else obj qs k')"
  by (simp add: obj_def update_conv')

lemma keys_update_present:
  "k \<in> set (map fst qs) \<Longrightarrow> map fst (AList.update k v qs) = map fst qs"
  by (simp add: update_keys)

lemma update_absent: "map_of al k = None \<Longrightarrow> AList.update k v al = al @ [(k, v)]"
  by (induction al) (auto split: if_splits)

lemma link_parent_keys:
  "c \<in> set (map fst qs) \<Longrightarrow> p \<in> set (map fst qs) \<Longrightarrow>
   map fst (link_parent qs c p) = map fst qs"
  by (simp add: link_parent_def link_child_def Let_def keys_update_present)

lemma link_parent_data: "data (obj (link_parent qs c p) k) = data (obj qs k)"
  by (simp add: link_parent_def link_child_def Let_def obj_update)

lemma link_parent_parent:
  "parent (obj (link_parent qs c p) k) = (if k = c then Some p else parent (obj qs k))"
  by (simp add: link_parent_def link_child_def Let_def obj_update)

lemma link_parent_children:
  "children (obj (link_parent qs c p) k) =
     (if k = p then add_child_key (question_id (obj qs c)) (children (obj qs k))
      else children (obj qs k))"
  by (simp add: link_parent_def link_child_def Let_def obj_update question_id_def)

lemma set_add_child_key: "set (add_child_key c cs) = insert c (set cs)"
  by (auto simp: add_child_key_def)

lemma add_child_key_nonempty: "add_child_key c cs \<noteq> []"
  by (auto simp: add_child_key_def)

lemma create_question_group_store:
  "questions_by_id (create_question_group s p) = questions_by_id s"
  by (simp add: create_question_group_def Let_def)

lemma create_question_group_groups:
  "question_groups_by_key (create_question_group s p) =
     (let t = title (questions_by_id s) (obj (questions_by_id s) p)
      in if map_of (question_groups_by_key s) t = None
         then question_groups_by_key s @ [(t, \<lparr>group_parent = p\<rparr>)]
         else question_groups_by_key s)"
  by (simp add: create_question_group_def Let_def key_def update_absent)

lemma process_question_unfold:
  "process_question s k =
     (let p = parent_qid (obj (questions_by_id s) k)
      in if map_of (questions_by_id s) p \<noteq> None
         then create_question_group
                (s\<lparr>questions_by_id := link_parent (questions_by_id s) k p\<rparr>) p
         else s)"
  by (simp add: process_question_def create_question_link_def Let_def)

subsection \<open>The invariant and its preservation\<close>

lemma store_ok_refl: "fresh_store qs0 \<Longrightarrow> store_ok qs0 qs0"
  by (simp add: store_ok_def fresh_store_def)

lemma store_ok_link:
  assumes ok: "store_ok qs0 qs" and fresh: "fresh_store qs0"
    and k: "k \<in> set (map fst qs0)" and p: "parent_qid (obj qs0 k) \<in> set (map fst qs0)"
  shows "store_ok qs0 (link_parent qs k (parent_qid (obj qs0 k)))"
proof -
  let ?p = "parent_qid (obj qs0 k)"
  let ?qs = "link_parent qs k ?p"
  have keys: "map fst qs = map fst qs0" and dat: "\<And>x. data (obj qs x) = data (obj qs0 x)"
    using ok by (simp_all add: store_ok_def)
  have qid: "question_id (obj qs k) = k"
    using fresh k dat[of k] by (auto simp: fresh_store_def question_id_def)
  have 1: "map fst ?qs = map fst qs0"
    using link_parent_keys[of k qs ?p] k p keys by simp
  have 2: "\<forall>x. data (obj ?qs x) = data (obj qs0 x)"
    by (simp add: link_parent_data dat)
  have 3: "\<forall>x \<in> set (map fst qs0).
        parent (obj ?qs x) = None \<or>
        parent (obj ?qs x) = Some (parent_qid (obj qs0 x)) \<and>
        parent_qid (obj qs0 x) \<in> set (map fst qs0)"
    using ok p unfolding store_ok_def link_parent_parent by auto
  have 4: "\<forall>x \<in> set (map fst qs0). \<forall>c \<in> set (children (obj ?qs x)).
        c \<in> set (map fst qs0) \<and> parent_qid (obj qs0 c) = x"
    using ok k unfolding store_ok_def link_parent_children qid
    by (auto simp: set_add_child_key)
  show ?thesis unfolding store_ok_def using 1 2 3 4 by blast
qed

lemma title_possible:
  assumes ok: "store_ok qs0 qs" and p: "p \<in> set (map fst qs0)"
  shows "title qs (obj qs p) \<in> set (possible_titles qs0 p)"
proof -
  have dat: "\<And>x. data (obj qs x) = data (obj qs0 x)"
    using ok by (simp add: store_ok_def)
  have own: "\<And>x. own_title (obj qs x) = own_title (obj qs0 x)"
    by (simp add: own_title_def dat)
  from ok p have "parent (obj qs p) = None \<or>
        parent (obj qs p) = Some (parent_qid (obj qs0 p)) \<and>
        parent_qid (obj qs0 p) \<in> set (map fst qs0)"
    unfolding store_ok_def by blast
  then show ?thesis
  proof
    assume "parent (obj qs p) = None"
    then show ?thesis by (simp add: title_def possible_titles_def own Let_def)
  next
    assume a: "parent (obj qs p) = Some (parent_qid (obj qs0 p)) \<and>
        parent_qid (obj qs0 p) \<in> set (map fst qs0)"
    then have "map_of qs0 (parent_qid (obj qs0 p)) \<noteq> None"
      by (simp add: map_of_eq_None_iff)
    then show ?thesis using a by (simp add: title_def possible_titles_def own Let_def)
  qed
qed

lemma groups_ok_link:
  assumes "groups_ok qs0 qs gs"
  shows "groups_ok qs0 (link_parent qs c p) gs"
  using assms unfolding groups_ok_def link_parent_children
  by (auto simp: add_child_key_nonempty)

lemma groups_ok_create:
  assumes g: "groups_ok qs0 (questions_by_id s) (question_groups_by_key s)"
    and ok: "store_ok qs0 (questions_by_id s)"
    and p: "p \<in> set (map fst qs0)"
    and ch: "children (obj (questions_by_id s) p) \<noteq> []"
  shows "groups_ok qs0 (questions_by_id (create_question_group s p))
           (question_groups_by_key (create_question_group s p))"
proof -
  let ?t = "title (questions_by_id s) (obj (questions_by_id s) p)"
  have t: "?t \<in> set (possible_titles qs0 p)" by (rule title_possible[OF ok p])
  show ?thesis
  proof (cases "map_of (question_groups_by_key s) ?t = None")
    case True
    then have "?t \<notin> fst ` set (question_groups_by_key s)" by (simp add: map_of_eq_None_iff)
    then show ?thesis using g t p ch True
      unfolding groups_ok_def create_question_group_store create_question_group_groups
      by (auto simp: Let_def)
  next
    case False
    then show ?thesis using g
      unfolding create_question_group_store create_question_group_groups
      by (auto simp: Let_def)
  qed
qed

lemma process_question_inv:
  assumes inv: "hier_inv qs0 s" and fresh: "fresh_store qs0" and k: "k \<in> set (map fst qs0)"
  shows "hier_inv qs0 (process_question s k)"
proof -
  let ?qs = "questions_by_id s"
  have ok: "store_ok qs0 ?qs" and gr: "groups_ok qs0 ?qs (question_groups_by_key s)"
    using inv by (simp_all add: hier_inv_def)
  have keys: "map fst ?qs = map fst qs0" and dat: "\<And>x. data (obj ?qs x) = data (obj qs0 x)"
    using ok by (simp_all add: store_ok_def)
  have pq: "parent_qid (obj ?qs k) = parent_qid (obj qs0 k)" by (simp add: parent_qid_def dat)
  let ?p = "parent_qid (obj qs0 k)"
  show ?thesis
  proof (cases "map_of ?qs ?p = None")
    case True
    then show ?thesis using inv by (simp add: process_question_unfold pq Let_def)
  next
    case False
    then have p: "?p \<in> set (map fst qs0)" using keys
      by (metis map_of_eq_None_iff set_map)
    let ?s1 = "s\<lparr>questions_by_id := link_parent ?qs k ?p\<rparr>"
    have ok1: "store_ok qs0 (questions_by_id ?s1)"
      using store_ok_link[OF ok fresh k p] by simp
    have gr1: "groups_ok qs0 (questions_by_id ?s1) (question_groups_by_key ?s1)"
      using groups_ok_link[OF gr] by simp
    have ch: "children (obj (questions_by_id ?s1) ?p) \<noteq> []"
      by (simp add: link_parent_children add_child_key_nonempty)
    have "hier_inv qs0 (create_question_group ?s1 ?p)"
      unfolding hier_inv_def
      using groups_ok_create[OF gr1 ok1 p ch] ok1 by (simp add: create_question_group_store)
    then show ?thesis using False by (simp add: process_question_unfold pq Let_def)
  qed
qed

lemma foldl_process_inv:
  assumes "fresh_store qs0"
  shows "hier_inv qs0 s \<Longrightarrow> set ks \<subseteq> set (map fst qs0) \<Longrightarrow>
         hier_inv qs0 (foldl process_question s ks)"
proof (induction ks arbitrary: s)
  case Nil
  then show ?case by simp
next
  case (Cons k ks)
  then have "hier_inv qs0 (process_question s k)"
    using process_question_inv[OF _ assms] by simp
  then show ?case using Cons by simp
qed

subsection \<open>Every question with children gets a group, when titles are unambiguous\<close>

lemma has_group_create_mono:
  "has_group s x \<Longrightarrow> has_group (create_question_group s p) x"
  unfolding has_group_def create_question_group_groups by (auto simp: Let_def)

lemma has_group_store_update:
  "has_group (s\<lparr>questions_by_id := qs\<rparr>) x = has_group s x"
  by (simp add: has_group_def)

lemma children_is_parent:
  assumes "store_ok qs0 qs" "x \<in> set (map fst qs0)" "children (obj qs x) \<noteq> []"
  shows "is_parent qs0 x"
proof -
  from assms(3) obtain c where "c \<in> set (children (obj qs x))"
    by (cases "children (obj qs x)") auto
  with assms(1,2) have "c \<in> set (map fst qs0) \<and> parent_qid (obj qs0 c) = x"
    unfolding store_ok_def by blast
  then show ?thesis unfolding is_parent_def by blast
qed

lemma process_question_grouped:
  assumes inv: "hier_inv qs0 s" and fresh: "fresh_store qs0" and k: "k \<in> set (map fst qs0)"
    and unamb: "titles_unambiguous qs0" and ag: "all_grouped s"
  shows "all_grouped (process_question s k)"
proof -
  let ?qs = "questions_by_id s"
  have ok: "store_ok qs0 ?qs" and gr: "groups_ok qs0 ?qs (question_groups_by_key s)"
    using inv by (simp_all add: hier_inv_def)
  have keys: "map fst ?qs = map fst qs0" and dat: "\<And>x. data (obj ?qs x) = data (obj qs0 x)"
    using ok by (simp_all add: store_ok_def)
  have pq: "parent_qid (obj ?qs k) = parent_qid (obj qs0 k)" by (simp add: parent_qid_def dat)
  let ?p = "parent_qid (obj qs0 k)"
  show ?thesis
  proof (cases "map_of ?qs ?p = None")
    case True
    then show ?thesis using ag by (simp add: process_question_unfold pq Let_def)
  next
    case False
    then have p: "?p \<in> set (map fst qs0)" using keys
      by (metis map_of_eq_None_iff set_map)
    let ?s1 = "s\<lparr>questions_by_id := link_parent ?qs k ?p\<rparr>"
    let ?s2 = "create_question_group ?s1 ?p"
    let ?t = "title (questions_by_id ?s1) (obj (questions_by_id ?s1) ?p)"
    have s2: "process_question s k = ?s2"
      using False by (simp add: process_question_unfold pq Let_def)
    have ok1: "store_ok qs0 (questions_by_id ?s1)"
      using store_ok_link[OF ok fresh k p] by simp
    have gr1: "groups_ok qs0 (questions_by_id ?s1) (question_groups_by_key ?s1)"
      using groups_ok_link[OF gr] by simp
    have keys2: "map fst (questions_by_id ?s2) = map fst qs0"
      using ok1 by (simp add: create_question_group_store store_ok_def)
    have tp: "?t \<in> set (possible_titles qs0 ?p)" by (rule title_possible[OF ok1 p])
    have par_p: "is_parent qs0 ?p" using k unfolding is_parent_def by blast
    have grp_p: "has_group ?s2 ?p"
    proof (cases "map_of (question_groups_by_key ?s1) ?t")
      case None
      then show ?thesis
        unfolding has_group_def create_question_group_groups by (simp add: Let_def)
    next
      case (Some g)
      then have mem: "(?t, g) \<in> set (question_groups_by_key ?s1)" by (rule map_of_SomeD)
      with gr1 have g: "group_parent g \<in> set (map fst qs0)"
          "children (obj (questions_by_id ?s1) (group_parent g)) \<noteq> []"
          "?t \<in> set (possible_titles qs0 (group_parent g))"
        unfolding groups_ok_def by auto
      have "is_parent qs0 (group_parent g)" by (rule children_is_parent[OF ok1 g(1) g(2)])
      then have "group_parent g = ?p"
        using unamb g(1) g(3) p tp par_p unfolding titles_unambiguous_def by blast
      then have "has_group ?s1 ?p" using mem unfolding has_group_def by blast
      then show ?thesis by (rule has_group_create_mono)
    qed
    have "all_grouped ?s2"
      unfolding all_grouped_def
    proof (intro ballI impI)
      fix x assume x: "x \<in> set (map fst (questions_by_id ?s2))"
        and hc: "has_children (obj (questions_by_id ?s2) x)"
      show "has_group ?s2 x"
      proof (cases "x = ?p")
        case True
        then show ?thesis using grp_p by simp
      next
        case False
        then have "has_children (obj ?qs x)"
          using hc by (simp add: create_question_group_store link_parent_children has_children_def)
        moreover have "x \<in> set (map fst ?qs)" using x keys2 keys by simp
        ultimately have "has_group s x" using ag unfolding all_grouped_def by blast
        then have "has_group ?s1 x" by (simp add: has_group_store_update)
        then show ?thesis by (rule has_group_create_mono)
      qed
    qed
    then show ?thesis using s2 by simp
  qed
qed

lemma foldl_process_grouped:
  assumes "fresh_store qs0" "titles_unambiguous qs0"
  shows "hier_inv qs0 s \<Longrightarrow> all_grouped s \<Longrightarrow> set ks \<subseteq> set (map fst qs0) \<Longrightarrow>
         all_grouped (foldl process_question s ks)"
proof (induction ks arbitrary: s)
  case Nil
  then show ?case by simp
next
  case (Cons k ks)
  have k: "k \<in> set (map fst qs0)" using Cons.prems by simp
  have "hier_inv qs0 (process_question s k)"
    by (rule process_question_inv[OF Cons.prems(1) assms(1) k])
  moreover have "all_grouped (process_question s k)"
    by (rule process_question_grouped[OF Cons.prems(1) assms(1) k assms(2) Cons.prems(2)])
  ultimately show ?case using Cons by simp
qed

subsection \<open>The loaded survey\<close>

lemma index_questions_snoc:
  "index_questions (raws @ [q]) = AList.update (raw_qid q) (new_Question q) (index_questions raws)"
  by (simp add: index_questions_def question_id_def new_Question_def)

lemma fresh_index_questions: "fresh_store (index_questions raws)"
proof (induction raws rule: rev_induct)
  case Nil
  show ?case by (simp add: index_questions_def fresh_store_def)
next
  case (snoc q raws)
  then show ?case
    unfolding index_questions_snoc fresh_store_def
    by (auto simp: distinct_update obj_update update_keys question_id_def new_Question_def
             split: if_splits)
qed

lemma title_mapping_frame:
  "questions_by_id (create_question_title_mapping s) = questions_by_id s \<and>
   question_groups_by_key (create_question_title_mapping s) = question_groups_by_key s"
proof -
  have "questions_by_id (foldl map_question_title s0 ks) = questions_by_id s0 \<and>
        question_groups_by_key (foldl map_question_title s0 ks) = question_groups_by_key s0"
    for s0 ks
    by (induction ks arbitrary: s0) (simp_all add: map_question_title_def)
  then show ?thesis by (simp add: create_question_title_mapping_def)
qed

lemma load_questions_inv: "hier_inv (index_questions raws) (load_questions s raws)"
proof -
  let ?qs0 = "index_questions raws"
  let ?s0 = "s\<lparr>questions_by_id := ?qs0, question_groups_by_key := []\<rparr>"
  have fresh: "fresh_store ?qs0" by (rule fresh_index_questions)
  have "hier_inv ?qs0 ?s0"
    by (simp add: hier_inv_def store_ok_refl[OF fresh] groups_ok_def)
  then have "hier_inv ?qs0 (foldl process_question ?s0 (map fst ?qs0))"
    by (rule foldl_process_inv[OF fresh]) simp
  then show ?thesis
    by (simp add: load_questions_def Let_def process_question_relationships_def
        hier_inv_def title_mapping_frame)
qed

lemma load_questions_grouped:
  assumes "titles_unambiguous (index_questions raws)"
  shows "all_grouped (load_questions s raws)"
proof -
  let ?qs0 = "index_questions raws"
  let ?s0 = "s\<lparr>questions_by_id := ?qs0, question_groups_by_key := []\<rparr>"
  have fresh: "fresh_store ?qs0" by (rule fresh_index_questions)
  have inv: "hier_inv ?qs0 ?s0"
    by (simp add: hier_inv_def store_ok_refl[OF fresh] groups_ok_def)
  have ag: "all_grouped ?s0"
    using fresh by (auto simp: all_grouped_def fresh_store_def has_children_def)
  have "all_grouped (foldl process_question ?s0 (map fst ?qs0))"
    by (rule foldl_process_grouped[OF fresh assms inv ag]) simp
  then show ?thesis
    by (simp add: load_questions_def Let_def process_question_relationships_def
        all_grouped_def has_group_def title_mapping_frame)
qed

text \<open>
  In the loaded survey every reference resolves: the parent of a loaded question and
  the entries of its children dictionary are keys of \<open>questions_by_id\<close>.
\<close>

lemma load_questions_refs_closed:
  assumes "k \<in> set (map fst (questions_by_id (load_questions s raws)))"
  shows "(\<forall>p. parent (obj (questions_by_id (load_questions s raws)) k) = Some p \<longrightarrow>
            p \<in> set (map fst (questions_by_id (load_questions s raws)))) \<and>
         set (children (obj (questions_by_id (load_questions s raws)) k)) \<subseteq>
            set (map fst (questions_by_id (load_questions s raws)))"
proof -
  let ?ini = "index_questions raws"
  let ?qs = "questions_by_id (load_questions s raws)"
  have ok: "store_ok ?ini ?qs"
    using load_questions_inv[of raws s] unfolding hier_inv_def by blast
  have keys: "map fst ?qs = map fst ?ini" using ok unfolding store_ok_def by blast
  have k0: "k \<in> set (map fst ?ini)" using assms keys by simp
  from ok k0 have "parent (obj ?qs k) = None \<or>
      parent (obj ?qs k) = Some (parent_qid (obj ?ini k)) \<and>
      parent_qid (obj ?ini k) \<in> set (map fst ?ini)"
    unfolding store_ok_def by blast
  moreover from ok k0 have "\<forall>c \<in> set (children (obj ?qs k)). c \<in> set (map fst ?ini)"
    unfolding store_ok_def by blast
  ultimately show ?thesis unfolding keys by force
qed

text \<open>
  Claim C2, as stated: after hierarchy construction on any set of loaded questions, a
  question has children exactly when some group of the group mapping has it as its
  parent. This fails when two parents share a title: the mapping is keyed by title and
  \<^verbatim>\<open>_create_question_group\<close> makes no group under a title that is taken, so in the
  survey \<open>same_title_raws\<close> question 2 has the child 4 and no group.
\<close>

theorem same_title_parent_without_group:
  "2 \<in> set (map fst (questions_by_id (load_questions new_Survey same_title_raws))) \<and>
   has_children (obj (questions_by_id (load_questions new_Survey same_title_raws)) 2) \<and>
   \<not> has_group (load_questions new_Survey same_title_raws) 2"
  by code_simp

text \<open>
  Claim C2, amended: after hierarchy construction on any list of raw questions, every
  group of the group mapping has a loaded question with at least one child as its parent
  (no group exists for a childless question); and when no two different parents can show
  the same title (\<open>titles_unambiguous\<close>), a loaded question has children exactly when
  some group has it as its parent.
\<close>

theorem groups_match_children:
  "(\<forall>(t, g) \<in> set (question_groups_by_key (load_questions s raws)).
      group_parent g \<in> set (map fst (questions_by_id (load_questions s raws))) \<and>
      has_children (obj (questions_by_id (load_questions s raws)) (group_parent g))) \<and>
   (titles_unambiguous (index_questions raws) \<longrightarrow>
      (\<forall>k \<in> set (map fst (questions_by_id (load_questions s raws))).
         has_children (obj (questions_by_id (load_questions s raws)) k) \<longleftrightarrow>
         has_group (load_questions s raws) k))"
proof -
  let ?s = "load_questions s raws"
  have inv: "hier_inv (index_questions raws) ?s" by (rule load_questions_inv)
  then have keys: "map fst (questions_by_id ?s) = map fst (index_questions raws)"
    unfolding hier_inv_def store_ok_def by blast
  have 1: "\<forall>(t, g) \<in> set (question_groups_by_key ?s).
      group_parent g \<in> set (map fst (questions_by_id ?s)) \<and>
      has_children (obj (questions_by_id ?s) (group_parent g))"
    using inv unfolding keys hier_inv_def groups_ok_def has_children_def by auto
  have 2: "\<forall>k \<in> set (map fst (questions_by_id ?s)).
         has_children (obj (questions_by_id ?s) k) \<longleftrightarrow> has_group ?s k"
    if "titles_unambiguous (index_questions raws)"
  proof
    fix k assume k: "k \<in> set (map fst (questions_by_id ?s))"
    show "has_children (obj (questions_by_id ?s) k) \<longleftrightarrow> has_group ?s k"
    proof
      assume "has_children (obj (questions_by_id ?s) k)"
      then show "has_group ?s k"
        using load_questions_grouped[OF that, of s] k unfolding all_grouped_def by blast
    next
      assume "has_group ?s k"
      then show "has_children (obj (questions_by_id ?s) k)"
        using 1 unfolding has_group_def by auto
    qed
  qed
  show ?thesis using 1 2 by blast
qed

theorem groups_match_children_witness:
  "titles_unambiguous (index_questions two_parent_raws) \<and>
   has_children (obj (questions_by_id (load_questions new_Survey two_parent_raws)) 4) \<and>
   has_group (load_questions new_Survey two_parent_raws) 4 \<and>
   \<not> has_group (load_questions new_Survey two_parent_raws) 5 \<and>
   \<not> has_children (obj (questions_by_id (load_questions new_Survey two_parent_raws)) 5)"
proof -
  have u: "titles_unambiguous (index_questions two_parent_raws)" by code_simp
  have k4: "4 \<in> set (map fst (questions_by_id (load_questions new_Survey two_parent_raws)))"
    by code_simp
  have k5: "5 \<in> set (map fst (questions_by_id (load_questions new_Survey two_parent_raws)))"
    by code_simp
  have c4: "has_children (obj (questions_by_id (load_questions new_Survey two_parent_raws)) 4)"
    by code_simp
  have c5: "\<not> has_children (obj (questions_by_id (load_questions new_Survey two_parent_raws)) 5)"
    by code_simp
  from groups_match_children[of new_Survey two_parent_raws] u
  have iff: "\<forall>k \<in> set (map fst (questions_by_id (load_questions new_Survey two_parent_raws))).
         has_children (obj (questions_by_id (load_questions new_Survey two_parent_raws)) k) \<longleftrightarrow>
         has_group (load_questions new_Survey two_parent_raws) k"
    by blast
  from iff k4 c4 have "has_group (load_questions new_Survey two_parent_raws) 4" by blast
  moreover from iff k5 c5 have "\<not> has_group (load_questions new_Survey two_parent_raws) 5"
    by blast
  ultimately show ?thesis using u c4 c5 by blast
qed

text \<open>The survey loaded from three questions of the shape of the specification's example.\<close>

lemma three_questions_loaded:
  assumes "raw_qid q1 = 1" "raw_parent_qid q1 = 0" "raw_title q1 = ''Q1''"
    and "raw_qid q2 = 2" "raw_parent_qid q2 = 1" "raw_title q2 = ''A''"
    and "raw_qid q3 = 3" "raw_parent_qid q3 = 1" "raw_title q3 = ''B''"
  shows "questions_by_id (load_questions s [q1, q2, q3]) =
           [(1, \<lparr>data = q1, parent = None, children = [2, 3]\<rparr>),
            (2, \<lparr>data = q2, parent = Some 1, children = []\<rparr>),
            (3, \<lparr>data = q3, parent = Some 1, children = []\<rparr>)]"
    and "question_groups_by_key (load_questions s [q1, q2, q3]) = [(''Q1'', \<lparr>group_parent = 1\<rparr>)]"
proof -
  have idx: "index_questions [q1, q2, q3] =
      [(1, \<lparr>data = q1, parent = None, children = []\<rparr>),
       (2, \<lparr>data = q2, parent = None, children = []\<rparr>),
       (3, \<lparr>data = q3, parent = None, children = []\<rparr>)]"
    using assms by (simp add: index_questions_def question_id_def new_Question_def)
  let ?s0 = "s\<lparr>questions_by_id := index_questions [q1, q2, q3], question_groups_by_key := []\<rparr>"
  have s1: "process_question ?s0 1 = ?s0"
    using assms unfolding idx by (simp add: process_question_def obj_def parent_qid_def)
  let ?s2 = "s\<lparr>questions_by_id :=
      [(1, \<lparr>data = q1, parent = None, children = [2]\<rparr>),
       (2, \<lparr>data = q2, parent = Some 1, children = []\<rparr>),
       (3, \<lparr>data = q3, parent = None, children = []\<rparr>)],
      question_groups_by_key := [(''Q1'', \<lparr>group_parent = 1\<rparr>)]\<rparr>"
  have s2: "process_question ?s0 2 = ?s2"
    using assms unfolding idx
    by (simp add: process_question_def create_question_link_def create_question_group_def
        link_parent_def link_child_def add_child_key_def question_id_def parent_qid_def
        own_title_def obj_def title_def key_def Let_def)
  let ?s3 = "s\<lparr>questions_by_id :=
      [(1, \<lparr>data = q1, parent = None, children = [2, 3]\<rparr>),
       (2, \<lparr>data = q2, parent = Some 1, children = []\<rparr>),
       (3, \<lparr>data = q3, parent = Some 1, children = []\<rparr>)],
      question_groups_by_key := [(''Q1'', \<lparr>group_parent = 1\<rparr>)]\<rparr>"
  have s3: "process_question ?s2 3 = ?s3"
    using assms
    by (simp add: process_question_def create_question_link_def create_question_group_def
        link_parent_def link_child_def add_child_key_def question_id_def parent_qid_def
        own_title_def obj_def title_def key_def Let_def)
  have "process_question_relationships (s\<lparr>questions_by_id := index_questions [q1, q2, q3]\<rparr>) = ?s3"
    unfolding process_question_relationships_def
    using s1 s2 s3 by (simp add: idx)
  then show "questions_by_id (load_questions s [q1, q2, q3]) =
           [(1, \<lparr>data = q1, parent = None, children = [2, 3]\<rparr>),
            (2, \<lparr>data = q2, parent = Some 1, children = []\<rparr>),
            (3, \<lparr>data = q3, parent = Some 1, children = []\<rparr>)]"
    and "question_groups_by_key (load_questions s [q1, q2, q3]) = [(''Q1'', \<lparr>group_parent = 1\<rparr>)]"
    by (simp_all add: load_questions_def Let_def title_mapping_frame)
qed

text \<open>
  Claim C5. From the three raw questions with qid 1, parent 0, title Q1; qid 2, parent
  1, title A; qid 3, parent 1, title B (whatever their other fields, and whatever the
  survey held before), the builder makes exactly one group: its key is Q1, its parent is
  question 1, its members are questions 2 and 3, shown as Q1[A] and Q1[B]. Question 1 has
  children; questions 2 and 3 have none.
\<close>

theorem hierarchy_example:
  "map fst (question_groups_by_key (load_questions s
      [r1\<lparr>raw_qid := 1, raw_parent_qid := 0, raw_title := ''Q1''\<rparr>,
       r2\<lparr>raw_qid := 2, raw_parent_qid := 1, raw_title := ''A''\<rparr>,
       r3\<lparr>raw_qid := 3, raw_parent_qid := 1, raw_title := ''B''\<rparr>])) = [''Q1''] \<and>
   map snd (question_groups_by_key (load_questions s
      [r1\<lparr>raw_qid := 1, raw_parent_qid := 0, raw_title := ''Q1''\<rparr>,
       r2\<lparr>raw_qid := 2, raw_parent_qid := 1, raw_title := ''A''\<rparr>,
       r3\<lparr>raw_qid := 3, raw_parent_qid := 1, raw_title := ''B''\<rparr>])) = [\<lparr>group_parent = 1\<rparr>] \<and>
   (let qs = questions_by_id (load_questions s
      [r1\<lparr>raw_qid := 1, raw_parent_qid := 0, raw_title := ''Q1''\<rparr>,
       r2\<lparr>raw_qid := 2, raw_parent_qid := 1, raw_title := ''A''\<rparr>,
       r3\<lparr>raw_qid := 3, raw_parent_qid := 1, raw_title := ''B''\<rparr>])
    in map fst qs = [1, 2, 3] \<and>
       key qs \<lparr>group_parent = 1\<rparr> = ''Q1'' \<and>
       map question_id (child_items qs \<lparr>group_parent = 1\<rparr>) = [2, 3] \<and>
       map (title qs) (child_items qs \<lparr>group_parent = 1\<rparr>) = [''Q1[A]'', ''Q1[B]''] \<and>
       has_children (obj qs 1) \<and> \<not> has_children (obj qs 2) \<and> \<not> has_children (obj qs 3))"
proof -
  define q1 where "q1 = r1\<lparr>raw_qid := 1, raw_parent_qid := 0, raw_title := ''Q1''\<rparr>"
  define q2 where "q2 = r2\<lparr>raw_qid := 2, raw_parent_qid := 1, raw_title := ''A''\<rparr>"
  define q3 where "q3 = r3\<lparr>raw_qid := 3, raw_parent_qid := 1, raw_title := ''B''\<rparr>"
  have f: "raw_qid q1 = 1" "raw_parent_qid q1 = 0" "raw_title q1 = ''Q1''"
    "raw_qid q2 = 2" "raw_parent_qid q2 = 1" "raw_title q2 = ''A''"
    "raw_qid q3 = 3" "raw_parent_qid q3 = 1" "raw_title q3 = ''B''"
    by (simp_all add: q1_def q2_def q3_def)
  note l = three_questions_loaded[OF f, of s]
  have "map fst (question_groups_by_key (load_questions s [q1, q2, q3])) = [''Q1''] \<and>
   map snd (question_groups_by_key (load_questions s [q1, q2, q3])) = [\<lparr>group_parent = 1\<rparr>] \<and>
   (let qs = questions_by_id (load_questions s [q1, q2, q3])
    in map fst qs = [1, 2, 3] \<and>
       key qs \<lparr>group_parent = 1\<rparr> = ''Q1'' \<and>
       map question_id (child_items qs \<lparr>group_parent = 1\<rparr>) = [2, 3] \<and>
       map (title qs) (child_items qs \<lparr>group_parent = 1\<rparr>) = [''Q1[A]'', ''Q1[B]''] \<and>
       has_children (obj qs 1) \<and> \<not> has_children (obj qs 2) \<and> \<not> has_children (obj qs 3))"
    unfolding l Let_def using f
    by (simp add: key_def title_def obj_def own_title_def child_items_def question_id_def
        has_children_def)
  then show ?thesis unfolding q1_def q2_def q3_def .
qed

theorem hierarchy_example_witness:
  "map fst (question_groups_by_key (load_questions new_Survey example_raws)) = [''Q1''] \<and>
   map (title example_qs) (child_items example_qs example_group) = [''Q1[A]'', ''Q1[B]''] \<and>
   has_children (obj example_qs 1) \<and> \<not> has_children (obj example_qs 2) \<and>
   \<not> has_children (obj example_qs 3)"
proof -
  have "example_raws =
      [(raw 1 0 ''Q1'' ''Which options?'')\<lparr>raw_qid := 1, raw_parent_qid := 0, raw_title := ''Q1''\<rparr>,
       (raw 2 1 ''A'' ''Option A'')\<lparr>raw_qid := 2, raw_parent_qid := 1, raw_title := ''A''\<rparr>,
       (raw 3 1 ''B'' ''Option  B'')\<lparr>raw_qid := 3, raw_parent_qid := 1, raw_title := ''B''\<rparr>]"
    by (simp add: example_raws_def raw_def)
  then show ?thesis
    using hierarchy_example[of new_Survey "raw 1 0 ''Q1'' ''Which options?''"
        "raw 2 1 ''A'' ''Option A''" "raw 3 1 ''B'' ''Option  B''"]
    by (simp add: example_qs_def example_group_def Let_def)
qed

section \<open>Aggregated group values\<close>

lemma get_value_loop_ok:
  assumes "get_answer response = Some lookup"
  shows "\<forall>sq \<in> set sqs. \<exists>a. lookup (QuestionKey sq) = Inr a \<Longrightarrow>
         get_value_loop response sqs acc =
           Inr (acc @ map question_text (filter (selected lookup) sqs))"
  using assms by (induction sqs arbitrary: acc) (auto simp: selected_def)

lemma get_value_loop_result:
  assumes "get_answer response = Some lookup"
  shows "get_value_loop response sqs acc = Inr xs \<Longrightarrow>
         xs = acc @ map question_text (filter (selected lookup) sqs)"
proof (induction sqs arbitrary: acc)
  case Nil
  then show ?case by simp
next
  case (Cons sq sqs)
  from Cons.prems assms obtain a where a: "lookup (QuestionKey sq) = Inr a"
    by (auto split: sum.splits)
  show ?case
  proof (cases "a = JStr ''N/A''")
    case True
    then have "get_value_loop response sqs acc = Inr xs" using Cons.prems assms a by simp
    from Cons.IH[OF this] show ?thesis using a True by (simp add: selected_def)
  next
    case False
    then have "get_value_loop response sqs (acc @ [question_text sq]) = Inr xs"
      using Cons.prems assms a by simp
    from Cons.IH[OF this] show ?thesis using a False by (simp add: selected_def)
  qed
qed

lemma get_value_loop_no_method:
  "get_answer response = None \<Longrightarrow> sqs \<noteq> [] \<Longrightarrow>
   get_value_loop response sqs acc = Inl AttributeError"
  by (cases sqs) auto

lemma example_qs_loaded:
  "example_qs =
     [(1, \<lparr>data = raw 1 0 ''Q1'' ''Which options?'', parent = None, children = [2, 3]\<rparr>),
      (2, \<lparr>data = raw 2 1 ''A'' ''Option A'', parent = Some 1, children = []\<rparr>),
      (3, \<lparr>data = raw 3 1 ''B'' ''Option  B'', parent = Some 1, children = []\<rparr>)]"
  unfolding example_qs_def example_raws_def
  by (rule three_questions_loaded(1)) (simp_all add: raw_def)

lemma example_child_items:
  "child_items example_qs example_group =
     [\<lparr>data = raw 2 1 ''A'' ''Option A'', parent = Some 1, children = []\<rparr>,
      \<lparr>data = raw 3 1 ''B'' ''Option  B'', parent = Some 1, children = []\<rparr>]"
  by (simp add: example_qs_loaded example_group_def child_items_def obj_def)

lemma example_children_answered:
  assumes "map_of d ''Q1[A]'' = Some a" "map_of d ''Q1[B]'' = Some b"
  shows "\<forall>sq \<in> set (child_items example_qs example_group).
           \<exists>v. lookup_in example_qs d (QuestionKey sq) = Inr v"
  unfolding example_child_items using assms
  by (simp add: lookup_in_def title_def own_title_def raw_def obj_def example_qs_loaded)

text \<open>
  Claim C3, as stated: the "other" value is omitted when its key is absent or its value
  is the string \<^verbatim>\<open>"None"\<close>, and appended otherwise. This fails for a null value: the
  source uses \<^verbatim>\<open>None\<close> for "no other value", so an answer that is \<^verbatim>\<open>None\<close> is
  omitted too. Here the key Q1[other] is present with the value null and nothing is
  appended behind the two texts.
\<close>

theorem null_other_not_appended:
  "key example_qs example_group = ''Q1'' \<and>
   lookup_in example_qs [(''Q1[A]'', JStr ''Yes''), (''Q1[B]'', JStr ''Yes''), (''Q1[other]'', JNull)]
     (TitleKey ''Q1[other]'') = Inr JNull \<and>
   get_value example_qs example_group
     (answering example_qs [(''Q1[A]'', JStr ''Yes''), (''Q1[B]'', JStr ''Yes''), (''Q1[other]'', JNull)]) =
     Inr [JStr ''Option A'', JStr ''Option B'']"
  by code_simp

lemma get_value_loop_spec:
  assumes "get_answer response = Some lookup"
  shows "get_value_loop response sqs acc =
     (case first_lookup_error lookup sqs of
        Some e \<Rightarrow> Inl e
      | None \<Rightarrow> Inr (acc @ map question_text (filter (selected lookup) sqs)))"
  using assms
  by (induction sqs arbitrary: acc) (auto simp: selected_def split: sum.splits option.splits)

lemma get_value_no_method:
  "get_answer response = None \<Longrightarrow> get_value qs g response = Inl AttributeError"
  by (cases "child_items qs g") (simp_all add: get_value_def get_other_value_def)

text \<open>
  Claim C3, amended: for every question group and every response, \<open>get_value\<close> first
  looks up the answer of each child sub-question, in the order of the children
  dictionary. When one of these lookups raises, \<open>get_value\<close> raises the error of the first
  one that does, and returns no value (on a response without \<^verbatim>\<open>get_answer\<close> this is
  \<^verbatim>\<open>AttributeError\<close>). When every child lookup returns an answer, \<open>get_value\<close> returns
  the cleaned texts of the children whose answer is not \<^verbatim>\<open>"N/A"\<close>, sorted, followed
  by at most one "other" value, looked up under the parent's title plus \<^verbatim>\<open>[other]\<close>:
  the value is omitted when the lookup raises \<^verbatim>\<open>KeyError\<close>, when it is the string
  \<^verbatim>\<open>"None"\<close> and when it is null; otherwise it is appended last. Any other error of
  that lookup is raised.
\<close>

theorem get_value_spec:
  "get_value qs g response =
     (case get_answer response of
        None \<Rightarrow> Inl AttributeError
      | Some lookup \<Rightarrow>
          (case first_lookup_error lookup (child_items qs g) of
             Some e \<Rightarrow> Inl e
           | None \<Rightarrow>
               (case lookup (TitleKey (key qs g @ ''[other]'')) of
                  Inl e \<Rightarrow> if e = KeyError then Inr (selected_texts qs g lookup) else Inl e
                | Inr v \<Rightarrow>
                    if v = JStr ''None'' \<or> v = JNull then Inr (selected_texts qs g lookup)
                    else Inr (selected_texts qs g lookup @ [v]))))"
proof (cases "get_answer response")
  case None
  then show ?thesis by (simp add: get_value_no_method)
next
  case has: (Some lookup)
  show ?thesis
  proof (cases "first_lookup_error lookup (child_items qs g)")
    case None
    then show ?thesis using has
      by (simp add: get_value_def get_value_loop_spec[OF has] get_other_value_def key_def
          selected_texts_def split: sum.splits)
  next
    case (Some e)
    then show ?thesis using has
      by (simp add: get_value_def get_value_loop_spec[OF has])
  qed
qed

text \<open>
  Three responses on the example group: A not selected, B selected and the other value
  \<^verbatim>\<open>"None"\<close>; nothing selected and an other text; and a response that has no answer
  for B, whose lookup raises \<^verbatim>\<open>KeyError\<close>.
\<close>

theorem get_value_spec_witness:
  "get_value example_qs example_group
     (answering example_qs [(''Q1[A]'', JStr ''N/A''), (''Q1[B]'', JStr ''Yes''), (''Q1[other]'', JStr ''None'')]) =
     Inr [JStr ''Option B''] \<and>
   get_value example_qs example_group
     (answering example_qs [(''Q1[A]'', JStr ''N/A''), (''Q1[B]'', JStr ''N/A''), (''Q1[other]'', JStr ''Some text'')]) =
     Inr [JStr ''Some text''] \<and>
   get_value example_qs example_group
     (answering example_qs [(''Q1[A]'', JStr ''Yes''), (''Q1[other]'', JStr ''Some text'')]) =
     Inl KeyError"
  unfolding get_value_spec by code_simp

text \<open>
  Claim C4, as stated: an "other" entry is appended only if the value is present,
  non-empty and non-null; an empty string is never appended. The source tests the value
  against \<^verbatim>\<open>"None"\<close> and \<^verbatim>\<open>None\<close> only: here the answer under Q1[other] is the empty
  string and it is appended behind the two texts.
\<close>

theorem empty_other_appended:
  "lookup_in example_qs [(''Q1[A]'', JStr ''Yes''), (''Q1[B]'', JStr ''Yes''), (''Q1[other]'', JStr '''')]
     (TitleKey ''Q1[other]'') = Inr (JStr '''') \<and>
   get_value example_qs example_group
     (answering example_qs [(''Q1[A]'', JStr ''Yes''), (''Q1[B]'', JStr ''Yes''), (''Q1[other]'', JStr '''')]) =
     Inr [JStr ''Option A'', JStr ''Option B'', JStr '''']"
  by code_simp

text \<open>
  Claim C4, amended: for every question group and every response, the aggregated value
  holds an "other" entry only if the lookup under the parent's title plus
  \<^verbatim>\<open>[other]\<close> returned a value that is neither null nor the string \<^verbatim>\<open>"None"\<close>; and an
  "other" answer that is the empty string is appended like any other text.
\<close>

theorem other_entry_only_if:
  "(get_value qs g response = Inr vs \<longrightarrow>
     (\<exists>lookup. get_answer response = Some lookup \<and>
        (vs = selected_texts qs g lookup \<or>
         (\<exists>v. lookup (TitleKey (key qs g @ ''[other]'')) = Inr v \<and> v \<noteq> JNull \<and>
              v \<noteq> JStr ''None'' \<and> vs = selected_texts qs g lookup @ [v]))))
   \<and>
   (get_answer response = Some lookup \<longrightarrow>
    (\<forall>sq \<in> set (child_items qs g). \<exists>a. lookup (QuestionKey sq) = Inr a) \<longrightarrow>
    lookup (TitleKey (key qs g @ ''[other]'')) = Inr (JStr '''') \<longrightarrow>
      get_value qs g response = Inr (selected_texts qs g lookup @ [JStr '''']))"
proof (intro conjI impI)
  assume r: "get_value qs g response = Inr vs"
  show "\<exists>lookup. get_answer response = Some lookup \<and>
        (vs = selected_texts qs g lookup \<or>
         (\<exists>v. lookup (TitleKey (key qs g @ ''[other]'')) = Inr v \<and> v \<noteq> JNull \<and>
              v \<noteq> JStr ''None'' \<and> vs = selected_texts qs g lookup @ [v]))"
  proof (cases "get_answer response")
    case None
    then show ?thesis using r
      by (simp add: get_value_def get_other_value_def split: sum.splits)
  next
    case (Some lookup)
    from r obtain xs where xs: "get_value_loop response (child_items qs g) [] = Inr xs"
      by (auto simp: get_value_def split: sum.splits)
    have texts: "map JStr (sort xs) = selected_texts qs g lookup"
      using get_value_loop_result[OF Some xs] by (simp add: selected_texts_def)
    show ?thesis using r Some texts xs
      by (auto simp: get_value_def get_other_value_def key_def Let_def
               split: sum.splits if_splits)
  qed
next
  assume "get_answer response = Some lookup"
    "\<forall>sq \<in> set (child_items qs g). \<exists>a. lookup (QuestionKey sq) = Inr a"
    "lookup (TitleKey (key qs g @ ''[other]'')) = Inr (JStr '''')"
  then show "get_value qs g response = Inr (selected_texts qs g lookup @ [JStr ''''])"
    by (simp add: get_value_def get_value_loop_ok get_other_value_def key_def selected_texts_def)
qed

theorem other_entry_only_if_witness:
  "get_value example_qs example_group
     (answering example_qs [(''Q1[A]'', JStr ''N/A''), (''Q1[B]'', JStr ''N/A''), (''Q1[other]'', JStr '''')]) =
     Inr [JStr '''']"
proof -
  let ?d = "[(''Q1[A]'', JStr ''N/A''), (''Q1[B]'', JStr ''N/A''), (''Q1[other]'', JStr '''')]"
  have a: "get_answer (answering example_qs ?d) = Some (lookup_in example_qs ?d)"
    by (simp add: answering_def)
  have h: "\<forall>sq \<in> set (child_items example_qs example_group).
      \<exists>a. lookup_in example_qs ?d (QuestionKey sq) = Inr a"
    by (rule example_children_answered) simp_all
  have o: "lookup_in example_qs ?d (TitleKey (key example_qs example_group @ ''[other]'')) = Inr (JStr '''')"
    by code_simp
  have t: "selected_texts example_qs example_group (lookup_in example_qs ?d) = []"
    by code_simp
  from other_entry_only_if[of example_qs example_group "answering example_qs ?d" _
      "lookup_in example_qs ?d"] a h o
  have "get_value example_qs example_group (answering example_qs ?d) =
      Inr (selected_texts example_qs example_group (lookup_in example_qs ?d) @ [JStr ''''])"
    by blast
  then show ?thesis by (simp add: t)
qed

text \<open>
  Claim C10. For every question group with at least one child sub-question, \<open>get_value\<close>
  on an instance of the base class \<^verbatim>\<open>Response\<close> produces no aggregated value: the
  class has no \<^verbatim>\<open>get_answer\<close>, so the first lookup raises \<^verbatim>\<open>AttributeError\<close>.
\<close>

theorem base_response_no_value:
  "child_items qs g \<noteq> [] \<Longrightarrow> get_value qs g (new_Response d) = Inl AttributeError"
  by (simp add: get_value_def new_Response_def get_value_loop_no_method)

theorem base_response_no_value_witness:
  "child_items example_qs example_group \<noteq> [] \<and>
   get_value example_qs example_group
     (new_Response (JObj [(''id'', JNum 1), (''Q1[A]'', JStr ''Yes'')])) = Inl AttributeError"
proof -
  have "child_items example_qs example_group \<noteq> []"
    by (simp add: example_child_items)
  then show ?thesis
    using base_response_no_value[of example_qs example_group] by simp
qed

section \<open>The reply parser\<close>

text \<open>
  Claim C7, as stated: every reply that decodes to a mapping with an id key and a string
  error gives an error response. This fails for a reply with a key outside the allow
  list: the parser checks the keys first and raises \<^verbatim>\<open>InvalidReplyError\<close>.
\<close>

theorem extra_key_reply_rejected:
  "map_of extra_key_reply ''id'' = Some (JNum 1) \<and>
   map_of extra_key_reply ''error'' = Some (JStr ''bad creds'') \<and>
   parse_reply_patched (loads_to (JObj extra_key_reply)) ''reply'' =
     Inl (InvalidReplyError ''Key not allowed: extra'')"
  by (simp add: parse_reply_patched_def loads_to_def extra_key_reply_def ALLOWED_REPLY_KEYS_def)

text \<open>
  Claim C7, amended: for every reply body that decodes to a mapping whose keys all
  belong to the allow list (id, result, error, jsonrpc), that has an id key and whose
  error field is a string \<open>e\<close>, the parser returns an error response with message \<open>e\<close>
  and code -1 (both \<^verbatim>\<open>code\<close> and \<^verbatim>\<open>_jsonrpc_error_code\<close>), no data, and the id of the
  reply.
\<close>

theorem string_error_reply:
  assumes "json_loads body = Inr (JObj members)"
    and "\<forall>k \<in> set (map fst members). k \<in> set ALLOWED_REPLY_KEYS"
    and "map_of members ''id'' = Some uid"
    and "map_of members ''error'' = Some (JStr e)"
  shows "parse_reply_patched json_loads body =
           Inr (JSONRPCErrorResponse (JStr e) (Some (- 1)) (JNum (- 1)) None uid)"
proof -
  have "find (\<lambda>k. k \<notin> set ALLOWED_REPLY_KEYS) (map fst members) = None"
    using assms(2) by (simp add: find_None_iff)
  then show ?thesis using assms(1,3,4) by (simp add: parse_reply_patched_def)
qed

theorem string_error_reply_witness:
  "parse_reply_patched (loads_to (JObj bad_creds_reply)) ''reply'' =
     Inr (JSONRPCErrorResponse (JStr ''bad creds'') (Some (- 1)) (JNum (- 1)) None (JNum 1))"
  using string_error_reply[of "loads_to (JObj bad_creds_reply)" "''reply''" bad_creds_reply
      "JNum 1" "''bad creds''"]
  by (simp add: loads_to_def bad_creds_reply_def ALLOWED_REPLY_KEYS_def)

section \<open>The API client\<close>

lemma validate_auth_valid:
  "authenticated st \<Longrightarrow> validate_session_key st \<Longrightarrow> validate_rpc_resources st \<Longrightarrow>
   validate_auth server st = (Inr (), st)"
  by (simp add: validate_auth_def)

text \<open>Every run of \<open>authenticate\<close> sends a request for a session key.\<close>

lemma authenticate_sends:
  "requests_sent (snd (authenticate server st)) =
     requests_sent st @
       [\<lparr>rpc_method = ''get_session_key'',
         rpc_params = [(''username'', JStr (username st)), (''password'', JStr (password st))]\<rparr>]"
  by (simp add: authenticate_def rpc_call_def Let_def split: sum.splits)

lemma valid_session_valid:
  "authenticated valid_session" "validate_session_key valid_session"
  "validate_rpc_resources valid_session"
  by (simp_all add: valid_session_def validate_session_key_def validate_rpc_resources_def)

text \<open>
  Claim C8. On a session that is valid (authenticated, with a session key that
  validates and with both RPC handles present) two calls of \<^verbatim>\<open>_validate_auth\<close> in
  succession both return without calling \<open>authenticate\<close>: the state after them is the
  state before, and no request has been sent (\<open>authenticate\<close> would have sent one).
\<close>

theorem validate_auth_twice:
  assumes "authenticated st" "validate_session_key st" "validate_rpc_resources st"
  shows "validate_auth server st = (Inr (), st) \<and>
         validate_auth server (snd (validate_auth server st)) = (Inr (), st) \<and>
         requests_sent (snd (validate_auth server (snd (validate_auth server st)))) =
           requests_sent st"
  using assms by (simp add: validate_auth_valid)

theorem validate_auth_twice_witness:
  "authenticated valid_session \<and> validate_session_key valid_session \<and>
   validate_rpc_resources valid_session \<and>
   validate_auth (answers_with JNull) (snd (validate_auth (answers_with JNull) valid_session)) =
     (Inr (), valid_session)"
  using validate_auth_twice[OF valid_session_valid, of "answers_with JNull"]
    valid_session_valid
  by simp

lemma export_rows_objects:
  "export_rows (map JObj ms) rows = Inr (rows @ concat (map (map snd) ms))"
  by (induction ms arbitrary: rows) auto

text \<open>
  Claim C6. When the session check passes and the server answers the export request
  with a result whose decoded document is an object with \<^verbatim>\<open>"responses"\<close> holding a list
  of maps, \<open>export_responses\<close> returns the values of the maps in order, without their
  keys; when every map has one entry \<open>{k: r}\<close> (for the pairs \<open>(k, r)\<close> of \<open>krs\<close>), these are
  the records \<open>r\<close>, one for each response.
\<close>

theorem export_responses_flat:
  assumes "validate_auth server st = (Inr (), st1)"
    and "server (requests_sent st1)
           (export_responses_request (session_key st1) survey_id language_code completion_status
              heading_type response_type from_response_id to_response_id a_fields) = Inr result_b64"
    and "b64_json result_b64 = Inr (JObj members)"
    and "map_of members ''responses'' = Some (JArr (map JObj ms))"
  shows "fst (export_responses server b64_json st survey_id language_code completion_status
              heading_type response_type from_response_id to_response_id a_fields) =
           Inr (concat (map (map snd) ms)) \<and>
         (ms = map (\<lambda>(k, r). [(k, r)]) krs \<longrightarrow>
          fst (export_responses server b64_json st survey_id language_code completion_status
              heading_type response_type from_response_id to_response_id a_fields) =
           Inr (map snd krs))"
proof -
  have r: "fst (export_responses server b64_json st survey_id language_code completion_status
              heading_type response_type from_response_id to_response_id a_fields) =
           Inr (concat (map (map snd) ms))"
    using assms
    by (simp add: export_responses_def request_ctx_def rpc_call_def export_rows_objects)
  have "concat (map (map snd) (map (\<lambda>(k, r). [(k, r)]) krs)) = map snd krs"
    by (induction krs) auto
  then show ?thesis using r by simp
qed

theorem export_responses_flat_witness:
  "fst (export_responses (answers_with (JStr ''b64'')) (decodes_to two_responses) valid_session
          1 None ''all'' ''code'' ''long'' None None JNull) =
     Inr [JObj [(''id'', JNum 1), (''q1'', JStr ''x'')], JObj [(''id'', JNum 2), (''q1'', JStr ''y'')]]"
proof -
  let ?krs = "[(''1'', JObj [(''id'', JNum 1), (''q1'', JStr ''x'')]),
               (''2'', JObj [(''id'', JNum 2), (''q1'', JStr ''y'')])]"
  let ?ms = "map (\<lambda>(k, r). [(k, r)]) ?krs"
  let ?members = "[(''responses'', JArr (map JObj ?ms))]"
  have v: "validate_auth (answers_with (JStr ''b64'')) valid_session = (Inr (), valid_session)"
    by (rule validate_auth_valid[OF valid_session_valid])
  have s: "answers_with (JStr ''b64'') (requests_sent valid_session)
      (export_responses_request (session_key valid_session) 1 None ''all'' ''code'' ''long''
         None None JNull) = Inr (JStr ''b64'')"
    by (simp add: answers_with_def)
  have d: "decodes_to two_responses (JStr ''b64'') = Inr (JObj ?members)"
    by (simp add: decodes_to_def two_responses_def)
  have m: "map_of ?members ''responses'' = Some (JArr (map JObj ?ms))"
    by simp
  show ?thesis
    using export_responses_flat[where server = "answers_with (JStr ''b64'')"
        and st = valid_session and ?st1.0 = valid_session and ?result_b64.0 = "JStr ''b64''"
        and ?b64_json = "decodes_to two_responses" and members = ?members and ms = ?ms
        and krs = ?krs, OF v s d m]
    by simp
qed

text \<open>
  Claim C1: a call of \<open>export_responses\<close> with a completion status, heading type or
  response type outside the enumerations is rejected before any request is sent. The
  source assigns the three enumerations and never compares a parameter with them. With
  the completion status \<^verbatim>\<open>bogus\<close> on a valid session the request goes out, carrying
  the value, and the rows of the answer are returned.
\<close>

theorem export_responses_sends_unchecked:
  "export_responses (answers_with (JStr ''b64'')) (decodes_to two_responses) valid_session 1 None
     ''bogus'' ''code'' ''long'' None None JNull =
   (Inr [JObj [(''id'', JNum 1), (''q1'', JStr ''x'')], JObj [(''id'', JNum 2), (''q1'', JStr ''y'')]],
    valid_session\<lparr>requests_sent :=
      [export_responses_request (JStr ''k3y'') 1 None ''bogus'' ''code'' ''long'' None None JNull]\<rparr>)"
  by (simp add: export_responses_def request_ctx_def validate_auth_def validate_session_key_def
      validate_rpc_resources_def rpc_call_def valid_session_def answers_with_def decodes_to_def
      two_responses_def)


end
